(* ===== verification/Auth_Prelude.thy ===== *)
theory Auth_Prelude
  imports Main "HOL-Library.Word"
begin

text \<open>
  Shared vocabulary of the development: the names of the machine types the crate uses,
  the collections of equations the component proofs share, and generic facts about
  results (\<open>'e + 'a\<close>, with \<open>Inl\<close> the error as Rust's \<open>Err\<close>), words and decimal
  numerals that more than one component needs.
\<close>

named_theorems world_simps
  "equations of the effect primitives: clock reads, network exchanges, log lines"

named_theorems frame_simps
  "fields of the environment that an operation leaves unchanged"

type_synonym u64 = "64 word"

subsection \<open>Results\<close>

text \<open>
  Rust's \<open>?\<close> operator propagates \<open>Err\<close> and continues with the \<open>Ok\<close> value. The
  models spell it out as a \<^theory_text>\<open>case\<close> on the sum; these two facts invert it.
\<close>

lemma try_case_Inr_iff [simp]:
  "((case x of Inl e \<Rightarrow> Inl e | Inr a \<Rightarrow> f a) = Inr b) \<longleftrightarrow> (\<exists>a. x = Inr a \<and> f a = Inr b)"
  by (cases x) auto

lemma try_case_Inl_iff:
  "((case x of Inl e \<Rightarrow> Inl e | Inr a \<Rightarrow> f a) = Inl e') \<longleftrightarrow>
     (x = Inl e' \<or> (\<exists>a. x = Inr a \<and> f a = Inl e'))"
  by (cases x) auto

subsection \<open>Words\<close>

lemma unat_of_nat_less:
  "n < 2 ^ LENGTH('a) \<Longrightarrow> unat (word_of_nat n :: 'a::len word) = n"
  by (simp add: unat_of_nat)

lemma unat_add_no_wrap:
  "unat a + unat b < 2 ^ LENGTH('a) \<Longrightarrow> unat (a + b :: 'a::len word) = unat a + unat b"
  by (simp add: unat_add_lem)

subsection \<open>Decimal numerals\<close>

text \<open>
  Rust's \<open>Display\<close> of an unsigned integer writes its decimal digits, most significant
  first, with no sign and no leading zero. \<open>read_nat\<close> reads such a string back; the
  round trip shows that the printed form determines the number.
\<close>

definition digit_char :: "nat \<Rightarrow> char" where
  "digit_char d = char_of (48 + d)"

fun show_nat :: "nat \<Rightarrow> string" where
  "show_nat n = (if n < 10 then [digit_char n] else show_nat (n div 10) @ [digit_char (n mod 10)])"

declare show_nat.simps [simp del]

definition is_digit :: "char \<Rightarrow> bool" where
  "is_digit c \<longleftrightarrow> (48::nat) \<le> of_char c \<and> of_char c < (58::nat)"

definition digit_val :: "char \<Rightarrow> nat" where
  "digit_val c = of_char c - 48"

definition read_nat :: "string \<Rightarrow> nat option" where
  "read_nat s = (if s \<noteq> [] \<and> list_all is_digit s
                 then Some (foldl (\<lambda>acc c. 10 * acc + digit_val c) 0 s) else None)"

lemma digit_char_props [simp]:
  assumes "d < 10"
  shows "is_digit (digit_char d)" and "digit_val (digit_char d) = d"
  using assms by (simp_all add: digit_char_def is_digit_def digit_val_def)

lemma show_nat_digits: "show_nat n \<noteq> [] \<and> list_all is_digit (show_nat n)"
proof (induction n rule: show_nat.induct)
  case (1 n)
  then show ?case by (auto simp: show_nat.simps [of n])
qed

lemma show_nat_value:
  "foldl (\<lambda>acc c. 10 * acc + digit_val c) 0 (show_nat n) = n"
proof (induction n rule: show_nat.induct)
  case (1 n)
  then show ?case by (auto simp: show_nat.simps [of n])
qed

lemma read_show_nat [simp]: "read_nat (show_nat n) = Some n"
  using show_nat_digits [of n] show_nat_value [of n] by (simp add: read_nat_def)

text \<open>Evaluates \<open>char_of\<close> of a numeral against a character literal.\<close>

lemma char_of_eq_iff: "char_of n = c \<longleftrightarrow> (n::nat) mod 256 = of_char c"
  by (metis char_of_char of_char_of)

lemma show_nat_inj: "show_nat m = show_nat n \<longleftrightarrow> m = n"
  by (metis option.inject read_show_nat)

lemma show_nat_zero: "show_nat 0 = ''0''"
  by (simp add: show_nat.simps digit_char_def char_of_eq_iff)

lemma show_nat_hd_zero: "hd (show_nat n) = CHR ''0'' \<longleftrightarrow> n = 0"
proof (induction n rule: show_nat.induct)
  case (1 n)
  show ?case
  proof (cases "n < 10")
    case True
    then show ?thesis by (simp add: show_nat.simps [of n] digit_char_def char_of_eq_iff)
  next
    case False
    then have "hd (show_nat n) = hd (show_nat (n div 10))"
      using show_nat_digits [of "n div 10"] by (simp add: show_nat.simps [of n])
    then show ?thesis using 1 False by simp
  qed
qed

end
