(* ===== verification/Rust_Env.thy ===== *)
theory Rust_Env
  imports Auth_Prelude
begin

text \<open>
  The library types and pure library operations that the crate (\<open>src/lib.rs\<close>) calls:
  \<open>std::time\<close> (system times, durations, \<open>duration_since\<close>, \<open>as_secs\<close>), the
  \<open>http\<close> crate's header values and header maps, the \<open>reqwest\<close> client builder,
  request builder and \<open>error_for_status\<close>, and the \<open>jsonwebtoken\<close> header, algorithm
  and key types. Only the behaviour the crate relies on is modelled; the effects (reading
  the clock, sending a request) are in theory \<open>Auth_World\<close>.
\<close>

section \<open>std::time\<close>

text \<open>
  A \<open>SystemTime\<close> is a signed count of nanoseconds relative to \<open>UNIX_EPOCH\<close>; a
  \<open>Duration\<close> is an unsigned count of nanoseconds. On Unix a \<open>SystemTime\<close> is a
  \<open>timespec\<close> whose seconds are an \<open>i64\<close>: \<open>valid_system_time\<close> says so.
\<close>

type_synonym system_time = int
type_synonym duration = nat

definition nanos_per_sec :: nat where
  "nanos_per_sec = 1000000000"

definition unix_epoch :: system_time where
  "unix_epoch = 0"

definition valid_system_time :: "system_time \<Rightarrow> bool" where
  "valid_system_time t \<longleftrightarrow>
     - (2 ^ 63 * int nanos_per_sec) \<le> t \<and> t < 2 ^ 63 * int nanos_per_sec"

datatype system_time_error = SystemTimeError duration

text \<open>
  \<open>t.duration_since(earlier)\<close> is \<open>Ok(t - earlier)\<close> when \<open>earlier\<close> is not later than
  \<open>t\<close>, and otherwise \<open>Err\<close> carrying how far \<open>earlier\<close> is ahead.
\<close>

definition duration_since :: "system_time \<Rightarrow> system_time \<Rightarrow> system_time_error + duration" where
  "duration_since t earlier =
     (if earlier \<le> t then Inr (nat (t - earlier)) else Inl (SystemTimeError (nat (earlier - t))))"

text \<open>\<open>Duration::as_secs\<close>: the whole seconds, the nanoseconds below a second dropped.\<close>

definition as_secs :: "duration \<Rightarrow> nat" where
  "as_secs d = d div nanos_per_sec"

section \<open>http: header values and header maps\<close>

text \<open>
  \<open>HeaderValue::from_str\<close> accepts a string whose every byte is visible ASCII, a space, a
  horizontal tab, or a byte of 128 and above (\<open>b >= 32 && b != 127 || b == b'\t'\<close>).
  Strings are byte lists (\<open>char\<close> is a byte). Header names are kept in the lower case
  that \<open>HeaderName\<close> normalises them to.
\<close>

datatype invalid_header_value = Invalid_header_value

definition is_valid_header_byte :: "char \<Rightarrow> bool" where
  "is_valid_header_byte c \<longleftrightarrow>
     ((32::nat) \<le> of_char c \<and> of_char c \<noteq> (127::nat)) \<or> of_char c = (9::nat)"

definition header_value_from_str :: "string \<Rightarrow> invalid_header_value + string" where
  "header_value_from_str s =
     (if list_all is_valid_header_byte s then Inr s else Inl Invalid_header_value)"

type_synonym header_map = "(string \<times> string) list"

definition header_map_new :: header_map where
  "header_map_new = []"

text \<open>\<open>HeaderMap::insert\<close> replaces every earlier value of the name.\<close>

definition header_map_insert :: "string \<Rightarrow> string \<Rightarrow> header_map \<Rightarrow> header_map" where
  "header_map_insert k v m = filter (\<lambda>p. fst p \<noteq> k) m @ [(k, v)]"

definition header_map_get :: "string \<Rightarrow> header_map \<Rightarrow> string option" where
  "header_map_get k m = map_option snd (find (\<lambda>p. fst p = k) m)"

definition has_header :: "string \<Rightarrow> header_map \<Rightarrow> bool" where
  "has_header k m \<longleftrightarrow> list_ex (\<lambda>p. fst p = k) m"

section \<open>reqwest\<close>

text \<open>
  The kinds of \<open>reqwest::Error\<close> the crate can meet: a builder error (a header value
  that is not valid), a transport error, a status error from \<open>error_for_status\<close>, and a
  decode error from \<open>json()\<close>.
\<close>

datatype reqwest_error =
    Builder_error string
  | Request_error string
  | Status_error nat
  | Decode_error string

record client =
  client_user_agent :: string

text \<open>
  \<open>Client::builder().user_agent(ua).build()\<close>: the user agent becomes a default
  header; a user agent that is not a valid header value makes \<open>build()\<close> fail.
\<close>

definition client_builder_build :: "string \<Rightarrow> reqwest_error + client" where
  "client_builder_build ua =
     (case header_value_from_str ua of
        Inl _ \<Rightarrow> Inl (Builder_error ''invalid user agent'')
      | Inr v \<Rightarrow> Inr \<lparr>client_user_agent = v\<rparr>)"

datatype http_method = GET | POST

record request =
  req_method :: http_method
  req_url :: string
  req_headers :: header_map

record response =
  status :: nat
  body :: string

text \<open>
  A \<open>RequestBuilder\<close> holds its client and either the request built so far or the first
  error met while building it; \<open>send()\<close> reports that error without any network traffic.
\<close>

record request_builder =
  rb_client :: client
  rb_request :: "reqwest_error + request"

definition client_post :: "client \<Rightarrow> string \<Rightarrow> request_builder" where
  "client_post c url =
     \<lparr>rb_client = c, rb_request = Inr \<lparr>req_method = POST, req_url = url, req_headers = []\<rparr>\<rparr>"

definition rb_header :: "string \<Rightarrow> string \<Rightarrow> request_builder \<Rightarrow> request_builder" where
  "rb_header k v rb =
     rb\<lparr>rb_request :=
       (case rb_request rb of
          Inl e \<Rightarrow> Inl e
        | Inr r \<Rightarrow>
            (case header_value_from_str v of
               Inl _ \<Rightarrow> Inl (Builder_error ''invalid header value'')
             | Inr v' \<Rightarrow> Inr (r\<lparr>req_headers := req_headers r @ [(k, v')]\<rparr>)))\<rparr>"

definition rb_bearer_auth :: "string \<Rightarrow> request_builder \<Rightarrow> request_builder" where
  "rb_bearer_auth tok rb = rb_header ''authorization'' (''Bearer '' @ tok) rb"

text \<open>The client's default headers (here the user agent) are added when the request is sent.\<close>

definition with_default_headers :: "client \<Rightarrow> request \<Rightarrow> request" where
  "with_default_headers c r =
     (if has_header ''user-agent'' (req_headers r) then r
      else r\<lparr>req_headers := req_headers r @ [(''user-agent'', client_user_agent c)]\<rparr>)"

text \<open>\<open>Response::error_for_status\<close>: an error for a client (4xx) or server (5xx) status.\<close>

definition error_for_status :: "response \<Rightarrow> reqwest_error + response" where
  "error_for_status r =
     (if 400 \<le> status r \<and> status r \<le> 599 then Inl (Status_error (status r)) else Inr r)"

section \<open>jsonwebtoken\<close>

text \<open>
  The algorithms of \<open>jsonwebtoken::Algorithm\<close>, their families, the token header
  (\<open>Header::default()\<close> has type \<open>JWT\<close> and algorithm \<open>HS256\<close>) and the encoding key,
  which remembers the family it was made for: \<open>EncodingKey::from_secret\<close> makes an HMAC
  key from the raw bytes.
\<close>

datatype algorithm = HS256 | HS384 | HS512 | ES256 | ES384 | RS256 | RS384 | RS512 | PS256 | PS384 | PS512

datatype algorithm_family = Hmac | Rsa | Ec

fun alg_family :: "algorithm \<Rightarrow> algorithm_family" where
  "alg_family HS256 = Hmac" | "alg_family HS384 = Hmac" | "alg_family HS512 = Hmac"
| "alg_family ES256 = Ec" | "alg_family ES384 = Ec"
| "alg_family RS256 = Rsa" | "alg_family RS384 = Rsa" | "alg_family RS512 = Rsa"
| "alg_family PS256 = Rsa" | "alg_family PS384 = Rsa" | "alg_family PS512 = Rsa"

record jwt_header =
  hdr_typ :: "string option"
  alg :: algorithm

definition jwt_header_default :: jwt_header where
  "jwt_header_default = \<lparr>hdr_typ = Some ''JWT'', alg = HS256\<rparr>"

record encoding_key =
  key_family :: algorithm_family
  key_content :: string

definition encoding_key_from_secret :: "string \<Rightarrow> encoding_key" where
  "encoding_key_from_secret secret = \<lparr>key_family = Hmac, key_content = secret\<rparr>"

datatype jwt_error = InvalidAlgorithm | InvalidKeyFormat | InvalidRsaKey | Crypto_error string

text \<open>
  \<open>jsonwebtoken::encode\<close> first refuses a key whose family is not the family of the
  header's algorithm, then serialises and signs. The signing itself is a parameter
  (\<open>sign\<close>): the cryptography is outside the model.
\<close>

definition jsonwebtoken_encode ::
  "(jwt_header \<Rightarrow> 'c \<Rightarrow> encoding_key \<Rightarrow> jwt_error + string)
   \<Rightarrow> jwt_header \<Rightarrow> 'c \<Rightarrow> encoding_key \<Rightarrow> jwt_error + string" where
  "jsonwebtoken_encode sign h claims key =
     (if key_family key \<noteq> alg_family (alg h) then Inl InvalidAlgorithm else sign h claims key)"

end
