(* ===== verification/Auth_Types.thy ===== *)
theory Auth_Types
  imports Rust_Env
begin

text \<open>
  The data types declared in \<open>src/lib.rs\<close>: the media-type constant
  \<open>MACHINE_MAN_PREVIEW\<close>, the error enum \<open>AuthError\<close> (one constructor per origin, each
  wrapping the library's error), the JWT claims \<open>JwtClaims\<close>, the exchange response
  \<open>RawInstallationToken\<close> and the caller's parameters \<open>GithubAuthParams\<close>.
\<close>

definition MACHINE_MAN_PREVIEW :: string where
  "MACHINE_MAN_PREVIEW = ''application/vnd.github.machine-man-preview+json''"

datatype auth_error =
    JwtError jwt_error
  | InvalidHeaderValue invalid_header_value
  | ReqwestError reqwest_error
  | TimeError system_time_error

text \<open>The claims are three \<open>u64\<close> fields: issued at, expiry, issuer.\<close>

record jwt_claims =
  iat :: u64
  exp :: u64
  iss :: u64

text \<open>
  \<open>DateTime<Utc>\<close>: whole seconds since the epoch and the nanoseconds within the second.
\<close>

record date_time_utc =
  utc_timestamp :: int
  utc_subsec_nanos :: nat

text \<open>
  \<open>RawInstallationToken\<close>, the JSON object \<open>{"token": ..., "expires_at": ...}\<close>. Its
  fields are prefixed here because \<open>token\<close> also names a field of the installation token.
\<close>

record raw_installation_token =
  raw_token :: string
  raw_expires_at :: date_time_utc

text \<open>
  \<open>GithubAuthParams\<close>: the private key is a byte vector, the identifiers are \<open>u64\<close>.
\<close>

record github_auth_params =
  user_agent :: string
  private_key :: string
  installation_id :: u64
  app_id :: u64

end
