(* ===== verification/Auth_World.thy ===== *)
theory Auth_World
  imports Auth_Types
begin

text \<open>
  The world the crate runs in, as explicit state: the wall clock, the remote service, the
  two libraries whose results the model does not compute (the JWT signer and the JSON
  decoder of \<open>RawInstallationToken\<close>), and the trace of observable events so far. The
  clock answers the \<open>i\<close>-th call of \<open>SystemTime::now()\<close> with \<open>clock w i\<close>; the server
  answers the \<open>n\<close>-th request sent with \<open>server w n req\<close>. Both are fixed for the whole
  run, so a run is determined by the world it starts in, and a claim such as "no request
  is sent" is a statement about the trace.
\<close>

datatype event =
    Clock_read system_time
  | Http_exchange request "reqwest_error + response"
  | Log_info string

record world =
  clock :: "nat \<Rightarrow> system_time"
  server :: "nat \<Rightarrow> request \<Rightarrow> reqwest_error + response"
  jwt_encode :: "jwt_header \<Rightarrow> jwt_claims \<Rightarrow> encoding_key \<Rightarrow> jwt_error + string"
  json_decode :: "string \<Rightarrow> string + raw_installation_token"
  trace :: "event list"

fun is_clock_read :: "event \<Rightarrow> bool" where
  "is_clock_read (Clock_read _) = True"
| "is_clock_read _ = False"

fun is_exchange :: "event \<Rightarrow> bool" where
  "is_exchange (Http_exchange _ _) = True"
| "is_exchange _ = False"

definition clock_reads :: "event list \<Rightarrow> nat" where
  "clock_reads es = length (filter is_clock_read es)"

definition requests_sent :: "event list \<Rightarrow> nat" where
  "requests_sent es = length (filter is_exchange es)"

fun sent_requests :: "event list \<Rightarrow> request list" where
  "sent_requests [] = []"
| "sent_requests (Http_exchange r _ # es) = r # sent_requests es"
| "sent_requests (_ # es) = sent_requests es"

subsection \<open>Effect primitives\<close>

text \<open>\<open>SystemTime::now()\<close>: the next clock reading, recorded in the trace.\<close>

definition system_time_now :: "world \<Rightarrow> system_time \<times> world" where
  "system_time_now w =
     (let t = clock w (clock_reads (trace w)) in (t, w\<lparr>trace := trace w @ [Clock_read t]\<rparr>))"

text \<open>One network round trip: the server's answer to the next request, recorded.\<close>

definition http_send :: "request \<Rightarrow> world \<Rightarrow> (reqwest_error + response) \<times> world" where
  "http_send r w =
     (let out = server w (requests_sent (trace w)) r
      in (out, w\<lparr>trace := trace w @ [Http_exchange r out]\<rparr>))"

definition log_info :: "string \<Rightarrow> world \<Rightarrow> world" where
  "log_info msg w = w\<lparr>trace := trace w @ [Log_info msg]\<rparr>"

text \<open>\<open>RequestBuilder::send()\<close>: a builder error is returned without a round trip.\<close>

definition request_builder_send :: "request_builder \<Rightarrow> world \<Rightarrow> (reqwest_error + response) \<times> world" where
  "request_builder_send rb w =
     (case rb_request rb of
        Inl e \<Rightarrow> (Inl e, w)
      | Inr r \<Rightarrow> http_send (with_default_headers (rb_client rb) r) w)"

text \<open>\<open>Response::json()\<close>: a body that does not decode is a reqwest decode error.\<close>

definition response_json :: "world \<Rightarrow> response \<Rightarrow> reqwest_error + raw_installation_token" where
  "response_json w r =
     (case json_decode w (body r) of Inl msg \<Rightarrow> Inl (Decode_error msg) | Inr raw \<Rightarrow> Inr raw)"

text \<open>
  The fixed part of the world is the same and the trace of the second world extends the
  trace of the first: every operation relates its input and output world so.
\<close>

definition world_extends :: "world \<Rightarrow> world \<Rightarrow> bool" where
  "world_extends w w' \<longleftrightarrow>
     clock w' = clock w \<and> server w' = server w \<and> jwt_encode w' = jwt_encode w \<and>
     json_decode w' = json_decode w \<and> (\<exists>es. trace w' = trace w @ es)"

lemmas [world_simps] = system_time_now_def http_send_def log_info_def request_builder_send_def

lemma trace_counts [simp]:
  "clock_reads [] = 0" "requests_sent [] = 0"
  "clock_reads (e # es) = (if is_clock_read e then 1 else 0) + clock_reads es"
  "requests_sent (e # es) = (if is_exchange e then 1 else 0) + requests_sent es"
  "clock_reads (es @ fs) = clock_reads es + clock_reads fs"
  "requests_sent (es @ fs) = requests_sent es + requests_sent fs"
  by (simp_all add: clock_reads_def requests_sent_def)

lemma response_json_trace [simp]:
  "response_json (w\<lparr>trace := es\<rparr>) = response_json w"
  by (rule ext) (simp add: response_json_def)

lemma sent_requests_append [simp]:
  "sent_requests (es @ fs) = sent_requests es @ sent_requests fs"
  by (induction es rule: sent_requests.induct) auto

lemma sent_requests_singleton [simp]:
  "sent_requests [Clock_read t] = []"
  "sent_requests [Log_info m] = []"
  "sent_requests [Http_exchange r out] = [r]"
  by simp_all

subsection \<open>The environment is fixed; the trace only grows\<close>

lemma world_extends_refl [simp, intro]: "world_extends w w"
  by (simp add: world_extends_def)

lemma world_extends_trans [trans]:
  "world_extends w1 w2 \<Longrightarrow> world_extends w2 w3 \<Longrightarrow> world_extends w1 w3"
  by (auto simp: world_extends_def)

lemma world_extends_snoc [intro]:
  "world_extends w (w\<lparr>trace := trace w @ es\<rparr>)"
  by (simp add: world_extends_def)

lemma system_time_now_extends [frame_simps]: "world_extends w (snd (system_time_now w))"
  by (simp add: system_time_now_def Let_def world_extends_snoc)

lemma http_send_extends [frame_simps]: "world_extends w (snd (http_send r w))"
  by (simp add: http_send_def Let_def world_extends_snoc)

lemma log_info_extends [frame_simps]: "world_extends w (log_info m w)"
  by (simp add: log_info_def world_extends_snoc)

lemma request_builder_send_extends [frame_simps]:
  "world_extends w (snd (request_builder_send rb w))"
  by (simp add: request_builder_send_def http_send_extends split: sum.split)

end
