(* ===== verification/Jwt_Claims.thy ===== *)
theory Jwt_Claims
  imports Auth_World
begin

text \<open>
  \<open>JwtClaims::new\<close> (\<open>src/lib.rs\<close>): read the clock, take the whole seconds since the
  epoch as a \<open>u64\<close>, and build the claims issued now, expiring 60 seconds later, issued
  by the application. The addition \<open>now + 60\<close> is on \<open>u64\<close>: modelled as word
  addition, and shown never to wrap for a clock reading that a \<open>SystemTime\<close> can hold.
\<close>

definition jwt_claims_new :: "github_auth_params \<Rightarrow> world \<Rightarrow> (auth_error + jwt_claims) \<times> world" where
  "jwt_claims_new params w =
     (let (t, w1) = system_time_now w in
      case duration_since t unix_epoch of
        Inl e \<Rightarrow> (Inl (TimeError e), w1)
      | Inr d \<Rightarrow>
          (let now = (word_of_nat (as_secs d) :: u64)
           in (Inr \<lparr>iat = now, exp = now + 60, iss = app_id params\<rparr>, w1)))"

text \<open>The clock reading the next \<open>SystemTime::now()\<close> returns.\<close>

abbreviation next_reading :: "world \<Rightarrow> system_time" where
  "next_reading w \<equiv> clock w (clock_reads (trace w))"

lemma jwt_claims_new_ok:
  assumes "0 \<le> next_reading w"
  shows "jwt_claims_new params w =
           (let now = (word_of_nat (nat (next_reading w) div nanos_per_sec) :: u64)
            in (Inr \<lparr>iat = now, exp = now + 60, iss = app_id params\<rparr>,
                w\<lparr>trace := trace w @ [Clock_read (next_reading w)]\<rparr>))"
  using assms
  by (simp add: jwt_claims_new_def system_time_now_def duration_since_def unix_epoch_def
                as_secs_def Let_def)

lemma jwt_claims_new_before_epoch:
  assumes "next_reading w < 0"
  shows "jwt_claims_new params w =
           (Inl (TimeError (SystemTimeError (nat (- next_reading w)))),
            w\<lparr>trace := trace w @ [Clock_read (next_reading w)]\<rparr>)"
  using assms
  by (simp add: jwt_claims_new_def system_time_now_def duration_since_def unix_epoch_def Let_def)

lemma jwt_claims_new_world:
  "snd (jwt_claims_new params w) = w\<lparr>trace := trace w @ [Clock_read (next_reading w)]\<rparr>"
  by (simp add: jwt_claims_new_def system_time_now_def Let_def split: sum.split)

lemma valid_system_time_secs:
  assumes "valid_system_time t" and "0 \<le> t"
  shows "nat t div nanos_per_sec < 2 ^ 63"
proof -
  have "t < 2 ^ 63 * int nanos_per_sec" using assms(1) by (simp add: valid_system_time_def)
  then have "nat t < 2 ^ 63 * nanos_per_sec" using assms(2) by (simp add: nat_less_iff)
  then show ?thesis by (simp add: nanos_per_sec_def less_mult_imp_div_less)
qed

subsection \<open>Properties of the claims\<close>

text \<open>
  C9. The claims \<open>JwtClaims::new\<close> builds are issued at the whole seconds of the clock
  reading (taken as a \<open>u64\<close>), expire at that value plus 60 in \<open>u64\<close> arithmetic,
  and are issued by the application; the clock is read exactly once.
\<close>

theorem jwt_claims_new_fields:
  assumes "jwt_claims_new params w = (Inr c, w')"
  shows "iss c = app_id params \<and> exp c = iat c + 60 \<and>
         iat c = word_of_nat (nat (next_reading w) div nanos_per_sec) \<and>
         w' = w\<lparr>trace := trace w @ [Clock_read (next_reading w)]\<rparr>"
proof (cases "next_reading w < 0")
  case True
  with assms show ?thesis by (simp add: jwt_claims_new_before_epoch)
next
  case False
  with assms show ?thesis by (auto simp: jwt_claims_new_ok Let_def)
qed

text \<open>
  C10. For every clock reading a \<open>SystemTime\<close> can hold, \<open>iat\<close> is the exact number of
  whole seconds and \<open>exp = iat + 60\<close> does not wrap around: the \<open>u64\<close> addition of the
  source neither overflows (a panic in a debug build) nor wraps (in a release build).
\<close>

theorem jwt_claims_no_overflow:
  assumes "valid_system_time (next_reading w)" and "jwt_claims_new params w = (Inr c, w')"
  shows "unat (iat c) = nat (next_reading w) div nanos_per_sec \<and> unat (exp c) = unat (iat c) + 60"
proof -
  have pos: "0 \<le> next_reading w"
    using assms(2) by (cases "next_reading w < 0") (simp_all add: jwt_claims_new_before_epoch)
  let ?n = "nat (next_reading w) div nanos_per_sec"
  have small: "?n < 2 ^ 63" using assms(1) pos by (rule valid_system_time_secs)
  have c: "c = \<lparr>iat = word_of_nat ?n, exp = word_of_nat ?n + 60, iss = app_id params\<rparr>"
    using assms(2) pos by (simp add: jwt_claims_new_ok Let_def)
  have iat: "unat (word_of_nat ?n :: u64) = ?n"
    using small by (simp add: unat_of_nat_less)
  have "unat (word_of_nat ?n :: u64) + unat (60 :: u64) < 2 ^ LENGTH(64)"
    using small iat by simp
  then have "unat (word_of_nat ?n + 60 :: u64) = ?n + 60"
    using iat by (simp add: unat_add_no_wrap)
  with c iat show ?thesis by simp
qed

end
