(* ===== verification/Token_Exchange.thy ===== *)
theory Token_Exchange
  imports Jwt_Claims
begin

text \<open>
  \<open>get_installation_token\<close> (\<open>src/lib.rs\<close>): build the claims, sign them as a JWT with
  an \<open>RS256\<close> header and a key made by \<open>EncodingKey::from_secret\<close> from the private key,
  and POST to the installation's \<open>access_tokens\<close> endpoint with the JWT as bearer token
  and the preview media type as \<open>Accept\<close>; a 4xx/5xx status is an error, and the body is
  decoded as a \<open>RawInstallationToken\<close>. Every \<open>?\<close> of the source is a branch below.
\<close>

text \<open>\<open>format!("https://api.github.com/app/installations/{}/access_tokens", id)\<close>\<close>

definition access_tokens_url :: "u64 \<Rightarrow> string" where
  "access_tokens_url inst =
     ''https://api.github.com/app/installations/'' @ show_nat (unat inst) @ ''/access_tokens''"

text \<open>The request of lines 111--114, before it is sent.\<close>

definition token_request :: "client \<Rightarrow> github_auth_params \<Rightarrow> string \<Rightarrow> request_builder" where
  "token_request c params jwt =
     rb_header ''accept'' MACHINE_MAN_PREVIEW
       (rb_bearer_auth jwt (client_post c (access_tokens_url (installation_id params))))"

text \<open>\<open>.send()?.error_for_status()?.json()?\<close>: every failure is a \<open>ReqwestError\<close>.\<close>

definition token_response ::
  "world \<Rightarrow> reqwest_error + response \<Rightarrow> auth_error + raw_installation_token" where
  "token_response w out =
     (case out of
        Inl e \<Rightarrow> Inl (ReqwestError e)
      | Inr resp \<Rightarrow>
          (case error_for_status resp of
             Inl e \<Rightarrow> Inl (ReqwestError e)
           | Inr resp' \<Rightarrow>
               (case response_json w resp' of
                  Inl e \<Rightarrow> Inl (ReqwestError e)
                | Inr raw \<Rightarrow> Inr raw)))"

definition get_installation_token ::
  "client \<Rightarrow> github_auth_params \<Rightarrow> world \<Rightarrow> (auth_error + raw_installation_token) \<times> world" where
  "get_installation_token c params w =
     (case jwt_claims_new params w of
        (Inl e, w1) \<Rightarrow> (Inl e, w1)
      | (Inr claims, w1) \<Rightarrow>
          (let hdr = jwt_header_default\<lparr>alg := RS256\<rparr>;
               key = encoding_key_from_secret (private_key params)
           in case jwt_encode w1 hdr claims key of
                Inl e \<Rightarrow> (Inl (JwtError e), w1)
              | Inr jwt \<Rightarrow>
                  (let (out, w2) = request_builder_send (token_request c params jwt) w1
                   in (token_response w2 out, w2))))"

subsection \<open>The request\<close>

abbreviation rs256_header :: jwt_header where
  "rs256_header \<equiv> jwt_header_default\<lparr>alg := RS256\<rparr>"

abbreviation app_key :: "github_auth_params \<Rightarrow> encoding_key" where
  "app_key params \<equiv> encoding_key_from_secret (private_key params)"

text \<open>The claims \<open>JwtClaims::new\<close> builds from a clock reading at or after the epoch.\<close>

abbreviation claims_at :: "github_auth_params \<Rightarrow> system_time \<Rightarrow> jwt_claims" where
  "claims_at params t \<equiv>
     \<lparr>iat = word_of_nat (nat t div nanos_per_sec), exp = word_of_nat (nat t div nanos_per_sec) + 60,
      iss = app_id params\<rparr>"

text \<open>The request as it goes on the wire, the client's user agent added.\<close>

definition sent_token_request :: "client \<Rightarrow> github_auth_params \<Rightarrow> string \<Rightarrow> request" where
  "sent_token_request c params jwt =
     \<lparr>req_method = POST, req_url = access_tokens_url (installation_id params),
      req_headers = [(''authorization'', ''Bearer '' @ jwt), (''accept'', MACHINE_MAN_PREVIEW),
                     (''user-agent'', client_user_agent c)]\<rparr>"

lemma machine_man_preview_valid: "list_all is_valid_header_byte MACHINE_MAN_PREVIEW"
  by (simp add: MACHINE_MAN_PREVIEW_def is_valid_header_byte_def)

lemma token_request_valid:
  assumes "list_all is_valid_header_byte jwt"
  shows "request_builder_send (token_request c params jwt) w = http_send (sent_token_request c params jwt) w"
proof -
  have "list_all is_valid_header_byte (''Bearer '' @ jwt)"
    using assms by (simp add: is_valid_header_byte_def)
  then show ?thesis
    using machine_man_preview_valid
    by (simp add: request_builder_send_def token_request_def rb_header_def rb_bearer_auth_def
                  client_post_def header_value_from_str_def with_default_headers_def has_header_def
                  sent_token_request_def)
qed

lemma token_request_invalid:
  assumes "\<not> list_all is_valid_header_byte jwt"
  shows "request_builder_send (token_request c params jwt) w =
           (Inl (Builder_error ''invalid header value''), w)"
  using assms
  by (simp add: request_builder_send_def token_request_def rb_header_def rb_bearer_auth_def
                client_post_def header_value_from_str_def)

subsection \<open>The branches of the exchange\<close>

lemma get_installation_token_time_error:
  assumes "next_reading w < 0"
  shows "get_installation_token c params w =
           (Inl (TimeError (SystemTimeError (nat (- next_reading w)))),
            w\<lparr>trace := trace w @ [Clock_read (next_reading w)]\<rparr>)"
  using assms by (simp add: get_installation_token_def jwt_claims_new_before_epoch)

lemma get_installation_token_sign_error:
  assumes "0 \<le> next_reading w"
    and "jwt_encode w rs256_header (claims_at params (next_reading w)) (app_key params) = Inl e"
  shows "get_installation_token c params w =
           (Inl (JwtError e), w\<lparr>trace := trace w @ [Clock_read (next_reading w)]\<rparr>)"
  using assms by (simp add: get_installation_token_def jwt_claims_new_ok Let_def)

lemma get_installation_token_bad_jwt:
  assumes "0 \<le> next_reading w"
    and "jwt_encode w rs256_header (claims_at params (next_reading w)) (app_key params) = Inr jwt"
    and "\<not> list_all is_valid_header_byte jwt"
  shows "get_installation_token c params w =
           (Inl (ReqwestError (Builder_error ''invalid header value'')),
            w\<lparr>trace := trace w @ [Clock_read (next_reading w)]\<rparr>)"
  using assms
  by (simp add: get_installation_token_def jwt_claims_new_ok Let_def token_request_invalid
                token_response_def)

lemma get_installation_token_sent:
  assumes "0 \<le> next_reading w"
    and "jwt_encode w rs256_header (claims_at params (next_reading w)) (app_key params) = Inr jwt"
    and "list_all is_valid_header_byte jwt"
  shows "get_installation_token c params w =
           (let req = sent_token_request c params jwt;
                out = server w (requests_sent (trace w)) req
            in (token_response w out,
                w\<lparr>trace := trace w @ [Clock_read (next_reading w), Http_exchange req out]\<rparr>))"
  using assms
  by (simp add: get_installation_token_def jwt_claims_new_ok Let_def token_request_valid
                http_send_def token_response_def response_json_def split: sum.split)

text \<open>
  Every run of the exchange falls in one of the four branches above; \<open>exchange_cases\<close>
  names them, so that a proof about the exchange is a case distinction over it.
\<close>

lemma exchange_cases:
  obtains (time_error) "next_reading w < 0"
  | (sign_error) e where "0 \<le> next_reading w"
      "jwt_encode w rs256_header (claims_at params (next_reading w)) (app_key params) = Inl e"
  | (bad_jwt) jwt where "0 \<le> next_reading w"
      "jwt_encode w rs256_header (claims_at params (next_reading w)) (app_key params) = Inr jwt"
      "\<not> list_all is_valid_header_byte jwt"
  | (sent) jwt where "0 \<le> next_reading w"
      "jwt_encode w rs256_header (claims_at params (next_reading w)) (app_key params) = Inr jwt"
      "list_all is_valid_header_byte jwt"
proof (cases "next_reading w < 0")
  case True
  then show ?thesis by (rule time_error)
next
  case False
  then have pos: "0 \<le> next_reading w" by simp
  show ?thesis
  proof (cases "jwt_encode w rs256_header (claims_at params (next_reading w)) (app_key params)")
    case (Inl e)
    with pos show ?thesis by (rule sign_error)
  next
    case (Inr jwt)
    with pos bad_jwt sent show ?thesis by blast
  qed
qed

text \<open>
  The outcome of one exchange, whatever the branch: either no request was sent (and the
  result is an error), or exactly the request \<open>sent_token_request\<close> was sent, signed
  from the claims of the clock reading, and the result is the server's answer read by
  \<open>token_response\<close>.
\<close>

lemma get_installation_token_outcome:
  assumes "get_installation_token c params w = (res, w')"
  obtains (no_request) e where "res = Inl e" "w' = w\<lparr>trace := trace w @ [Clock_read (next_reading w)]\<rparr>"
  | (request) jwt where "0 \<le> next_reading w"
      "jwt_encode w rs256_header (claims_at params (next_reading w)) (app_key params) = Inr jwt"
      "res = token_response w (server w (requests_sent (trace w)) (sent_token_request c params jwt))"
      "w' = w\<lparr>trace := trace w @ [Clock_read (next_reading w),
              Http_exchange (sent_token_request c params jwt)
                (server w (requests_sent (trace w)) (sent_token_request c params jwt))]\<rparr>"
proof (cases rule: exchange_cases [where w = w and params = params])
  case time_error
  with assms show ?thesis by (auto simp: get_installation_token_time_error intro: no_request)
next
  case (sign_error e)
  with assms show ?thesis by (auto simp: get_installation_token_sign_error intro: no_request)
next
  case (bad_jwt jwt)
  with assms show ?thesis by (auto simp: get_installation_token_bad_jwt intro: no_request)
next
  case (sent jwt)
  with assms show ?thesis by (auto simp: get_installation_token_sent Let_def intro: request)
qed

lemma token_response_Inr_iff:
  "token_response w out = Inr raw \<longleftrightarrow>
     (\<exists>resp. out = Inr resp \<and> \<not> (400 \<le> status resp \<and> status resp \<le> 599) \<and>
             json_decode w (body resp) = Inr raw)"
  "Inr raw = token_response w out \<longleftrightarrow>
     (\<exists>resp. out = Inr resp \<and> \<not> (400 \<le> status resp \<and> status resp \<le> 599) \<and>
             json_decode w (body resp) = Inr raw)"
  by (auto simp: token_response_def error_for_status_def response_json_def
           split: sum.splits if_splits)

lemma get_installation_token_requests:
  assumes "get_installation_token c params w = (res, w')"
  shows "requests_sent (trace w') \<le> Suc (requests_sent (trace w))"
  using assms by (cases rule: get_installation_token_outcome) auto

lemma token_response_trace [simp]:
  "token_response (w\<lparr>trace := es\<rparr>) = token_response w"
  by (rule ext) (simp add: token_response_def split: sum.split)

lemmas exchange_branches =
  get_installation_token_time_error get_installation_token_sign_error
  get_installation_token_bad_jwt get_installation_token_sent

subsection \<open>Properties of the exchange\<close>

text \<open>
  C11. One call of the exchange sends at most one request, and the request it sends is
  the POST to the installation's endpoint carrying the JWT signed from the claims of the
  clock reading, the preview media type and the user agent.
\<close>

theorem get_installation_token_request:
  assumes "get_installation_token c params w = (res, w')"
  shows "sent_requests (trace w') = sent_requests (trace w) \<or>
         (\<exists>jwt. 0 \<le> next_reading w \<and>
            jwt_encode w rs256_header (claims_at params (next_reading w)) (app_key params) = Inr jwt \<and>
            sent_requests (trace w') = sent_requests (trace w) @ [sent_token_request c params jwt])"
  using assms by (cases rule: get_installation_token_outcome) auto

text \<open>
  C12. The exchange succeeds only when its one request got a response whose status is
  not a client or server error and whose body decodes to the token returned.
\<close>

theorem get_installation_token_success:
  assumes "get_installation_token c params w = (Inr raw, w')"
  shows "\<exists>jwt resp.
           w' = w\<lparr>trace := trace w @ [Clock_read (next_reading w),
                                      Http_exchange (sent_token_request c params jwt) (Inr resp)]\<rparr> \<and>
           \<not> (400 \<le> status resp \<and> status resp \<le> 599) \<and> json_decode w (body resp) = Inr raw"
  using assms
proof (cases rule: get_installation_token_outcome)
  case (no_request e)
  then show ?thesis by simp
next
  case (request jwt)
  then obtain resp where "server w (requests_sent (trace w)) (sent_token_request c params jwt) = Inr resp"
    and "\<not> (400 \<le> status resp \<and> status resp \<le> 599)" and "json_decode w (body resp) = Inr raw"
    by (auto simp: token_response_Inr_iff)
  with request(4) show ?thesis by (intro exI [of _ jwt] exI [of _ resp]) simp
qed

text \<open>
  C13. A response with a 4xx or 5xx status makes the exchange fail with a reqwest status
  error carrying that status; the body is not decoded.
\<close>

theorem get_installation_token_status_error:
  assumes "0 \<le> next_reading w"
    and "jwt_encode w rs256_header (claims_at params (next_reading w)) (app_key params) = Inr jwt"
    and "list_all is_valid_header_byte jwt"
    and "server w (requests_sent (trace w)) (sent_token_request c params jwt) = Inr resp"
    and "400 \<le> status resp" and "status resp \<le> 599"
  shows "fst (get_installation_token c params w) = Inl (ReqwestError (Status_error (status resp)))"
  using assms
  by (simp add: get_installation_token_sent Let_def token_response_def error_for_status_def)

text \<open>
  C14. The token endpoint of an installation is GitHub's
  \<open>https://api.github.com/app/installations/{id}/access_tokens\<close> with the
  identifier written as a canonical decimal numeral: digits only, which read back to
  the identifier, with no leading zero (except the numeral 0 itself). So the URL
  names exactly that installation: two identifiers give the same URL only if they
  are equal.
\<close>

theorem access_tokens_url_decimal:
  "\<exists>ds. access_tokens_url i = ''https://api.github.com/app/installations/'' @ ds @ ''/access_tokens'' \<and>
        read_nat ds = Some (unat i) \<and> (hd ds = CHR ''0'') = (ds = ''0'') \<and>
        (access_tokens_url i = access_tokens_url j \<longleftrightarrow> i = j)"
proof (intro exI conjI)
  show "access_tokens_url i =
          ''https://api.github.com/app/installations/'' @ show_nat (unat i) @ ''/access_tokens''"
    by (simp add: access_tokens_url_def)
  show "(hd (show_nat (unat i)) = CHR ''0'') = (show_nat (unat i) = ''0'')"
    using show_nat_inj [of "unat i" 0] by (simp add: show_nat_hd_zero show_nat_zero)
  show "access_tokens_url i = access_tokens_url j \<longleftrightarrow> i = j"
    by (simp add: access_tokens_url_def show_nat_inj word_unat_eq_iff)
qed simp

text \<open>
  C15. With \<open>jsonwebtoken\<close>'s own \<open>encode\<close>, which refuses a key of another family
  than the header's algorithm, the exchange can never succeed: the key comes from
  \<open>EncodingKey::from_secret\<close> (an HMAC key) while the header asks for \<open>RS256\<close>, so
  every call fails with \<open>InvalidAlgorithm\<close> (or a time error) and no request is sent,
  whatever the signing primitive.
\<close>

theorem from_secret_key_rejected:
  assumes "jwt_encode w = jsonwebtoken_encode sign"
  shows "get_installation_token c params w =
           (if next_reading w < 0 then Inl (TimeError (SystemTimeError (nat (- next_reading w))))
            else Inl (JwtError InvalidAlgorithm),
            w\<lparr>trace := trace w @ [Clock_read (next_reading w)]\<rparr>)"
proof (cases "next_reading w < 0")
  case True
  then show ?thesis by (simp add: get_installation_token_time_error)
next
  case False
  have "jwt_encode w rs256_header (claims_at params (next_reading w)) (app_key params) =
          Inl InvalidAlgorithm"
    using assms
    by (simp add: jsonwebtoken_encode_def encoding_key_from_secret_def jwt_header_default_def)
  with False show ?thesis by (simp add: get_installation_token_sign_error)
qed

end
