(* ===== verification/Installation_Token.thy ===== *)
theory Installation_Token
  imports Token_Exchange
begin

text \<open>
  \<open>InstallationToken\<close> (\<open>src/lib.rs\<close>): the credential manager. Its state is the
  client, the current token, the local time the token was fetched, and the caller's
  parameters. \<open>new\<close> builds the client and fetches the first token; \<open>header\<close> calls
  \<open>refresh\<close>, which fetches a new token when more than \<open>55 * 60\<close> whole seconds have
  passed since the last fetch, and then renders \<open>Authorization: token ...\<close>. The
  mutation through \<open>&mut self\<close> is modelled by returning the new state; where the
  source returns early with \<open>?\<close>, the state returned is the one at that point.
\<close>

record installation_token =
  client :: client
  token :: string
  fetch_time :: system_time
  params :: github_auth_params

definition installation_token_new ::
  "github_auth_params \<Rightarrow> world \<Rightarrow> (auth_error + installation_token) \<times> world" where
  "installation_token_new p w =
     (case client_builder_build (user_agent p) of
        Inl e \<Rightarrow> (Inl (ReqwestError e), w)
      | Inr c \<Rightarrow>
          (case get_installation_token c p w of
             (Inl e, w1) \<Rightarrow> (Inl e, w1)
           | (Inr raw, w1) \<Rightarrow>
               (let (t, w2) = system_time_now w1
                in (Inr \<lparr>client = c, token = raw_token raw, fetch_time = t, params = p\<rparr>, w2))))"

definition refresh_message :: string where
  "refresh_message = ''refreshing installation token''"

definition refresh ::
  "installation_token \<Rightarrow> world \<Rightarrow> (auth_error + unit) \<times> installation_token \<times> world" where
  "refresh s w =
     (let (now, w1) = system_time_now w in
      case duration_since now (fetch_time s) of
        Inl e \<Rightarrow> (Inl (TimeError e), s, w1)
      | Inr elapsed \<Rightarrow>
          (if as_secs elapsed > 55 * 60 then
             (let w2 = log_info refresh_message w1 in
              case get_installation_token (client s) (params s) w2 of
                (Inl e, w3) \<Rightarrow> (Inl e, s, w3)
              | (Inr raw, w3) \<Rightarrow>
                  (let (t, w4) = system_time_now w3
                   in (Inr (), s\<lparr>token := raw_token raw, fetch_time := t\<rparr>, w4)))
           else (Inr (), s, w1)))"

definition header ::
  "installation_token \<Rightarrow> world \<Rightarrow> (auth_error + header_map) \<times> installation_token \<times> world" where
  "header s w =
     (case refresh s w of
        (Inl e, s1, w1) \<Rightarrow> (Inl e, s1, w1)
      | (Inr _, s1, w1) \<Rightarrow>
          (let val = ''token '' @ token s1
           in case header_value_from_str val of
                Inl e \<Rightarrow> (Inl (InvalidHeaderValue e), s1, w1)
              | Inr v \<Rightarrow> (Inr (header_map_insert ''authorization'' v header_map_new), s1, w1)))"

subsection \<open>Names used in the statements\<close>

text \<open>Whole seconds from the last fetch to a clock reading at or after it.\<close>

abbreviation elapsed_secs :: "installation_token \<Rightarrow> system_time \<Rightarrow> nat" where
  "elapsed_secs s t \<equiv> as_secs (nat (t - fetch_time s))"

abbreviation after_read :: "world \<Rightarrow> world" where
  "after_read w \<equiv> w\<lparr>trace := trace w @ [Clock_read (next_reading w)]\<rparr>"

abbreviation logged :: "world \<Rightarrow> world" where
  "logged w \<equiv> w\<lparr>trace := trace w @ [Clock_read (next_reading w), Log_info refresh_message]\<rparr>"

subsection \<open>What the trace says the current token is\<close>

text \<open>
  A specification of the state, read off the observable trace: the token of the latest
  exchange that succeeded (status not an error and a body that decodes), paired with the
  first clock reading after it. \<open>fetch_event\<close> scans one event, keeping the token of an
  exchange that has just succeeded and the last (token, time) pair.
\<close>

type_synonym fetch_scan = "string option \<times> (string \<times> system_time) option"

fun fetch_event :: "world \<Rightarrow> fetch_scan \<Rightarrow> event \<Rightarrow> fetch_scan" where
  "fetch_event w (_, cur) (Http_exchange r out) =
     ((case token_response w out of Inr raw \<Rightarrow> Some (raw_token raw) | Inl _ \<Rightarrow> None), cur)"
| "fetch_event w (pending, cur) (Clock_read t) =
     (None, (case pending of Some tok \<Rightarrow> Some (tok, t) | None \<Rightarrow> cur))"
| "fetch_event w (_, cur) (Log_info m) = (None, cur)"

definition fetch_history :: "world \<Rightarrow> fetch_scan" where
  "fetch_history w = foldl (fetch_event w) (None, None) (trace w)"

text \<open>
  The states a caller can hold: one built by \<open>new\<close> from parameters \<open>p\<close> in the
  world \<open>w0\<close>, then any number of \<open>header\<close> calls, whatever each returned.
\<close>

inductive token_reachable ::
  "github_auth_params \<Rightarrow> world \<Rightarrow> installation_token \<Rightarrow> world \<Rightarrow> bool" for p w0 where
  new: "installation_token_new p w0 = (Inr s, w) \<Longrightarrow> token_reachable p w0 s w"
| header: "token_reachable p w0 s w \<Longrightarrow> header s w = (r, s', w') \<Longrightarrow> token_reachable p w0 s' w'"

subsection \<open>The branches of \<open>refresh\<close>\<close>

lemma refresh_clock_behind:
  assumes "next_reading w < fetch_time s"
  shows "refresh s w =
           (Inl (TimeError (SystemTimeError (nat (fetch_time s - next_reading w)))), s, after_read w)"
  using assms by (simp add: refresh_def system_time_now_def duration_since_def Let_def)

lemma refresh_not_due:
  assumes "fetch_time s \<le> next_reading w" and "elapsed_secs s (next_reading w) \<le> 55 * 60"
  shows "refresh s w = (Inr (), s, after_read w)"
  using assms by (simp add: refresh_def system_time_now_def duration_since_def Let_def)

lemma refresh_due:
  assumes "fetch_time s \<le> next_reading w" and "elapsed_secs s (next_reading w) > 55 * 60"
  shows "refresh s w =
           (let w2 = w\<lparr>trace := trace w @ [Clock_read (next_reading w), Log_info refresh_message]\<rparr>
            in case get_installation_token (client s) (params s) w2 of
                 (Inl e, w3) \<Rightarrow> (Inl e, s, w3)
               | (Inr raw, w3) \<Rightarrow>
                   (Inr (), s\<lparr>token := raw_token raw, fetch_time := next_reading w3\<rparr>, after_read w3))"
  using assms
  by (simp add: refresh_def system_time_now_def duration_since_def log_info_def Let_def
           split: prod.split sum.split)

lemma refresh_cases:
  obtains (behind) "next_reading w < fetch_time s"
  | (not_due) "fetch_time s \<le> next_reading w" "elapsed_secs s (next_reading w) \<le> 55 * 60"
  | (due) "fetch_time s \<le> next_reading w" "elapsed_secs s (next_reading w) > 55 * 60"
  by (meson not_le)

text \<open>
  \<open>refresh\<close> ends in one of four ways: the clock is behind the fetch time; the token
  is not due; it is due and the exchange failed; it is due and a new token was fetched.
\<close>

lemma refresh_outcome:
  assumes "refresh s w = (r, s', w')"
  obtains (behind) "next_reading w < fetch_time s"
      "r = Inl (TimeError (SystemTimeError (nat (fetch_time s - next_reading w))))"
      "s' = s" "w' = after_read w"
  | (not_due) "fetch_time s \<le> next_reading w" "elapsed_secs s (next_reading w) \<le> 55 * 60"
      "r = Inr ()" "s' = s" "w' = after_read w"
  | (failed) e where "fetch_time s \<le> next_reading w" "elapsed_secs s (next_reading w) > 55 * 60"
      "get_installation_token (client s) (params s) (logged w) = (Inl e, w')" "r = Inl e" "s' = s"
  | (fetched) raw w3 where "fetch_time s \<le> next_reading w" "elapsed_secs s (next_reading w) > 55 * 60"
      "get_installation_token (client s) (params s) (logged w) = (Inr raw, w3)"
      "r = Inr ()" "s' = s\<lparr>token := raw_token raw, fetch_time := next_reading w3\<rparr>"
      "w' = after_read w3"
proof (cases rule: refresh_cases [where w = w and s = s])
  case behind
  with assms show ?thesis by (auto simp: refresh_clock_behind intro: that(1))
next
  case not_due
  with assms show ?thesis by (auto simp: refresh_not_due intro: that(2))
next
  case due
  obtain res w3 where g: "get_installation_token (client s) (params s) (logged w) = (res, w3)"
    by fastforce
  show ?thesis
  proof (cases res)
    case (Inl e)
    with due g assms show ?thesis by (auto simp: refresh_due intro: that(3))
  next
    case (Inr raw)
    with due g assms show ?thesis by (auto simp: refresh_due intro: that(4))
  qed
qed

lemma header_refresh:
  "header s w =
     (case refresh s w of
        (Inl e, s1, w1) \<Rightarrow> (Inl e, s1, w1)
      | (Inr _, s1, w1) \<Rightarrow>
          (if list_all is_valid_header_byte (token s1)
           then Inr [(''authorization'', ''token '' @ token s1)]
           else Inl (InvalidHeaderValue Invalid_header_value), s1, w1))"
  by (simp add: header_def header_value_from_str_def is_valid_header_byte_def
                header_map_insert_def header_map_new_def split: prod.split sum.split)

lemma header_state:
  assumes "header s w = (r, s', w')"
  obtains r1 where "refresh s w = (r1, s', w')"
  using assms by (auto simp: header_refresh split: prod.splits sum.splits if_splits)

lemma installation_token_new_outcome:
  assumes "installation_token_new p w = (Inr s, w')"
  obtains jwt resp raw where
    "0 \<le> next_reading w" "list_all is_valid_header_byte (user_agent p)"
    "jwt_encode w rs256_header (claims_at p (next_reading w)) (app_key p) = Inr jwt"
    "server w (requests_sent (trace w)) (sent_token_request \<lparr>client_user_agent = user_agent p\<rparr> p jwt)
       = Inr resp"
    "\<not> (400 \<le> status resp \<and> status resp \<le> 599)" "json_decode w (body resp) = Inr raw"
    "s = \<lparr>client = \<lparr>client_user_agent = user_agent p\<rparr>, token = raw_token raw,
          fetch_time = clock w (Suc (clock_reads (trace w))), params = p\<rparr>"
    "w' = w\<lparr>trace := trace w @ [Clock_read (next_reading w),
            Http_exchange (sent_token_request \<lparr>client_user_agent = user_agent p\<rparr> p jwt) (Inr resp),
            Clock_read (clock w (Suc (clock_reads (trace w))))]\<rparr>"
proof -
  from assms have ua: "list_all is_valid_header_byte (user_agent p)"
    by (auto simp: installation_token_new_def client_builder_build_def header_value_from_str_def
             split: if_splits)
  let ?c = "\<lparr>client_user_agent = user_agent p\<rparr>"
  obtain res w1 where g: "get_installation_token ?c p w = (res, w1)" by fastforce
  with assms ua obtain raw where res: "res = Inr raw"
    and s: "s = \<lparr>client = ?c, token = raw_token raw, fetch_time = next_reading w1, params = p\<rparr>"
    and w': "w' = after_read w1"
    by (auto simp: installation_token_new_def client_builder_build_def header_value_from_str_def
                   system_time_now_def Let_def split: sum.splits)
  from g show ?thesis
  proof (cases rule: get_installation_token_outcome)
    case (no_request e)
    with res show ?thesis by simp
  next
    case (request jwt)
    with res obtain resp where "server w (requests_sent (trace w)) (sent_token_request ?c p jwt) = Inr resp"
      "\<not> (400 \<le> status resp \<and> status resp \<le> 599)" "json_decode w (body resp) = Inr raw"
      by (auto simp: token_response_Inr_iff)
    with request ua s w' show ?thesis by (intro that) auto
  qed
qed

lemma fetch_event_trace [simp]:
  "fetch_event (w\<lparr>trace := es\<rparr>) = fetch_event w"
proof (intro ext)
  fix st e
  show "fetch_event (w\<lparr>trace := es\<rparr>) st e = fetch_event w st e"
    by (cases "(w, st, e)" rule: fetch_event.cases) simp_all
qed

lemma fetch_history_append:
  "fetch_history (w\<lparr>trace := trace w @ es\<rparr>) = foldl (fetch_event w) (fetch_history w) es"
  by (simp add: fetch_history_def)

text \<open>The invariant of a reachable state, for one call of \<open>new\<close> and one of \<open>header\<close>.\<close>

definition token_inv :: "github_auth_params \<Rightarrow> world \<Rightarrow> installation_token \<Rightarrow> world \<Rightarrow> bool" where
  "token_inv p w0 s w \<longleftrightarrow>
     params s = p \<and> client s = \<lparr>client_user_agent = user_agent p\<rparr> \<and> world_extends w0 w \<and>
     fetch_history w = (None, Some (token s, fetch_time s))"

lemma token_inv_new:
  assumes "installation_token_new p w0 = (Inr s, w)"
  shows "token_inv p w0 s w"
  using assms
proof (cases rule: installation_token_new_outcome)
  case (1 jwt resp raw)
  obtain a b where h: "fetch_history w0 = (a, b)" by fastforce
  from 1 have "token_response w0 (Inr resp) = Inr raw" by (simp add: token_response_Inr_iff)
  with 1 h show ?thesis by (simp add: token_inv_def fetch_history_append world_extends_snoc)
qed

lemma refresh_keeps_inv:
  assumes "refresh s w = (r, s', w')" and h: "fetch_history w = (None, Some (token s, fetch_time s))"
  shows "world_extends w w' \<and> params s' = params s \<and> client s' = client s \<and>
         fetch_history w' = (None, Some (token s', fetch_time s'))"
  using assms(1)
proof (cases rule: refresh_outcome)
  case behind
  with h show ?thesis by (simp add: fetch_history_append world_extends_snoc)
next
  case not_due
  with h show ?thesis by (simp add: fetch_history_append world_extends_snoc)
next
  case (failed e)
  from failed(3) show ?thesis
  proof (cases rule: get_installation_token_outcome)
    case (no_request e')
    with failed h show ?thesis by (simp add: fetch_history_append world_extends_snoc)
  next
    case (request jwt)
    then have "token_response w (server w (requests_sent (trace w))
                 (sent_token_request (client s) (params s) jwt)) = Inl e"
      by simp
    with failed(5) h request(4) show ?thesis
      by (simp add: fetch_history_append world_extends_snoc)
  qed
next
  case (fetched raw w3)
  from fetched(3) show ?thesis
  proof (cases rule: get_installation_token_outcome)
    case (no_request e')
    then show ?thesis by simp
  next
    case (request jwt)
    then have "token_response w (server w (requests_sent (trace w))
                 (sent_token_request (client s) (params s) jwt)) = Inr raw"
      by simp
    with fetched(5,6) h request(4) show ?thesis
      by (simp add: fetch_history_append world_extends_snoc)
  qed
qed

lemma token_inv_header:
  assumes "token_inv p w0 s w" and "header s w = (r, s', w')"
  shows "token_inv p w0 s' w'"
proof -
  from assms(2) obtain r1 where "refresh s w = (r1, s', w')" by (rule header_state)
  moreover from assms(1) have "fetch_history w = (None, Some (token s, fetch_time s))"
    by (simp add: token_inv_def)
  ultimately have "world_extends w w' \<and> params s' = params s \<and> client s' = client s \<and>
                   fetch_history w' = (None, Some (token s', fetch_time s'))"
    by (rule refresh_keeps_inv)
  with assms(1) show ?thesis by (auto simp: token_inv_def intro: world_extends_trans)
qed

lemma token_reachable_inv:
  assumes "token_reachable p w0 s w"
  shows "token_inv p w0 s w"
  using assms
proof (induction rule: token_reachable.induct)
  case (new s w)
  then show ?case by (rule token_inv_new)
next
  case (header s w r s' w')
  then show ?case by (blast intro: token_inv_header)
qed

subsection \<open>Properties of the credential manager\<close>

text \<open>
  C1. When the token is not due (at most \<open>55 * 60\<close> whole seconds since the fetch),
  \<open>header\<close> reads the clock once, sends no request, keeps the state, and returns the
  \<open>Authorization\<close> header carrying the stored token.
\<close>

theorem header_not_due:
  assumes "fetch_time s \<le> next_reading w" and "elapsed_secs s (next_reading w) \<le> 55 * 60"
    and "list_all is_valid_header_byte (token s)"
  shows "header s w = (Inr [(''authorization'', ''token '' @ token s)], s, after_read w)"
  using assms by (simp add: header_refresh refresh_not_due)

text \<open>
  C2. When the token is due and \<open>refresh\<close> succeeds, exactly one exchange took place
  (clock read, log line, clock read for the claims, one request, clock read), and the new
  state holds the token of the decoded response with the fetch time of the clock reading
  taken after the response arrived.
\<close>

theorem refresh_due_fetches:
  assumes "fetch_time s \<le> next_reading w" and "elapsed_secs s (next_reading w) > 55 * 60"
    and "refresh s w = (Inr (), s', w')"
  shows "\<exists>jwt resp raw.
           trace w' = trace w @
             [Clock_read (next_reading w), Log_info refresh_message,
              Clock_read (clock w (clock_reads (trace w) + 1)),
              Http_exchange (sent_token_request (client s) (params s) jwt) (Inr resp),
              Clock_read (clock w (clock_reads (trace w) + 2))] \<and>
           json_decode w (body resp) = Inr raw \<and>
           s' = s\<lparr>token := raw_token raw, fetch_time := clock w (clock_reads (trace w) + 2)\<rparr>"
  using assms(3)
proof (cases rule: refresh_outcome)
  case behind
  with assms(1) show ?thesis by simp
next
  case not_due
  with assms(2) show ?thesis by simp
next
  case (failed e)
  then show ?thesis by simp
next
  case (fetched raw w3)
  from fetched(3) show ?thesis
  proof (cases rule: get_installation_token_outcome)
    case (no_request e)
    then show ?thesis by simp
  next
    case (request jwt)
    then obtain resp where "server w (requests_sent (trace w))
        (sent_token_request (client s) (params s) jwt) = Inr resp"
      and "json_decode w (body resp) = Inr raw"
      by (auto simp: token_response_Inr_iff)
    with fetched(5,6) request(4) show ?thesis by auto
  qed
qed

text \<open>
  C3. Failure isolation: whenever \<open>refresh\<close> returns an error (the clock behind the
  fetch time, or a failed exchange), the stored token and fetch time are unchanged.
\<close>

theorem refresh_error_keeps_state:
  assumes "refresh s w = (Inl e, s', w')"
  shows "s' = s"
  using assms by (cases rule: refresh_outcome) auto

text \<open>
  C4. \<open>refresh\<close> sends no request unless more than \<open>55 * 60\<close> whole seconds have
  passed since the fetch, and never more than one: there is no retry.
\<close>

theorem refresh_request_count:
  "requests_sent (trace (snd (snd (refresh s w)))) \<le>
     requests_sent (trace w) +
     (if fetch_time s \<le> next_reading w \<and> elapsed_secs s (next_reading w) > 55 * 60 then 1 else 0)"
proof -
  obtain r s' w' where rf: "refresh s w = (r, s', w')" by (cases "refresh s w") auto
  have "requests_sent (trace w') \<le> requests_sent (trace w) +
     (if fetch_time s \<le> next_reading w \<and> elapsed_secs s (next_reading w) > 55 * 60 then 1 else 0)"
    using rf
  proof (cases rule: refresh_outcome)
    case (failed e)
    from get_installation_token_requests [OF failed(3)] failed(1,2) show ?thesis by simp
  next
    case (fetched raw w3)
    from get_installation_token_requests [OF fetched(3)] fetched(1,2,6) show ?thesis by simp
  qed simp_all
  with rf show ?thesis by simp
qed

text \<open>
  C5. In every state a caller can reach (\<open>new\<close>, then any \<open>header\<close> calls), the token
  and its fetch time are the token of the latest successful exchange in the trace and the
  first clock reading after it: the two fields are always updated together.
\<close>

theorem reachable_token_matches_trace:
  assumes "token_reachable p w0 s w"
  shows "fetch_history w = (None, Some (token s, fetch_time s))"
  using token_reachable_inv [OF assms] by (simp add: token_inv_def)

text \<open>
  C6. The parameters and the client are never changed after construction, and the world
  only grows by new events.
\<close>

theorem reachable_params_unchanged:
  assumes "token_reachable p w0 s w"
  shows "params s = p \<and> client s = \<lparr>client_user_agent = user_agent p\<rparr> \<and> world_extends w0 w"
  using token_reachable_inv [OF assms] by (simp add: token_inv_def)

text \<open>
  C7. A successful \<open>new\<close> performed exactly one exchange: the state holds the token of
  the decoded response, the fetch time is the clock reading after it, and the parameters
  and user agent are the caller's.
\<close>

theorem installation_token_new_fetches:
  assumes "installation_token_new p w = (Inr s, w')"
  shows "params s = p \<and> client s = \<lparr>client_user_agent = user_agent p\<rparr> \<and>
         (\<exists>jwt resp raw.
            trace w' = trace w @ [Clock_read (next_reading w),
                                  Http_exchange (sent_token_request (client s) p jwt) (Inr resp),
                                  Clock_read (fetch_time s)] \<and>
            json_decode w (body resp) = Inr raw \<and> token s = raw_token raw)"
  using assms by (cases rule: installation_token_new_outcome) auto

text \<open>
  A successful \<open>header\<close> returns exactly one header, \<open>authorization\<close>, whose value
  is \<open>token \<close> followed by the token held after the refresh.
\<close>

theorem header_ok_renders_token:
  assumes "header s w = (Inr m, s', w')"
  shows "m = [(''authorization'', ''token '' @ token s')] \<and> list_all is_valid_header_byte (token s')"
  using assms by (auto simp: header_refresh split: prod.splits sum.splits if_splits)

text \<open>
  C16. Construction fails before any clock read or request when the user agent is not a
  valid header value: the client builder refuses it.
\<close>

theorem installation_token_new_bad_user_agent:
  assumes "\<not> list_all is_valid_header_byte (user_agent p)"
  shows "installation_token_new p w = (Inl (ReqwestError (Builder_error ''invalid user agent'')), w)"
  using assms
  by (simp add: installation_token_new_def client_builder_build_def header_value_from_str_def)

text \<open>
  C17. A token that is not a valid header value makes \<open>header\<close> fail with
  \<open>InvalidHeaderValue\<close>, but only after \<open>refresh\<close>: the state returned is the
  refreshed one, not the state before the call.
\<close>

theorem header_invalid_token:
  assumes "refresh s w = (Inr (), s', w')" and "\<not> list_all is_valid_header_byte (token s')"
  shows "header s w = (Inl (InvalidHeaderValue Invalid_header_value), s', w')"
  using assms by (simp add: header_refresh)

text \<open>
  C18. A clock that reads earlier than the fetch time makes \<open>header\<close> fail with
  \<open>TimeError\<close>, without a request and without changing the state.
\<close>

theorem header_clock_behind:
  assumes "next_reading w < fetch_time s"
  shows "header s w =
           (Inl (TimeError (SystemTimeError (nat (fetch_time s - next_reading w)))), s, after_read w)"
  using assms by (simp add: header_refresh refresh_clock_behind)

end
