(* ===== verification/Credential_Spec.thy ===== *)
theory Credential_Spec
  imports Installation_Token
begin

text \<open>
  The credential manager's contract, as the specification states it (section 4.3), on an
  abstract state of two fields, and the proof that \<open>refresh\<close> and \<open>header\<close> implement
  it. A credential request checks the clock; a clock behind the fetch time is an error; a
  credential at most 55 minutes (whole seconds) old is kept; an older one is replaced by
  the result of an exchange if the exchange succeeds, and kept with an error otherwise.
  The exchange's result is not chosen by the contract: the refinement reads it off the
  events the concrete run added to the trace.
\<close>

record cred =
  cred_token :: string
  cred_fetched :: system_time

definition abs_cred :: "installation_token \<Rightarrow> cred" where
  "abs_cred s = \<lparr>cred_token = token s, cred_fetched = fetch_time s\<rparr>"

text \<open>
  \<open>cred_request now fetched c\<close>: the request at clock reading \<open>now\<close>, where \<open>fetched\<close>
  is the (token, time) an exchange produced, if one was made and succeeded. The first
  component of the result says whether the request succeeded.
\<close>

definition cred_request :: "system_time \<Rightarrow> (string \<times> system_time) option \<Rightarrow> cred \<Rightarrow> bool \<times> cred" where
  "cred_request now fetched c =
     (if now < cred_fetched c then (False, c)
      else if as_secs (nat (now - cred_fetched c)) \<le> 55 * 60 then (True, c)
      else case fetched of
             None \<Rightarrow> (False, c)
           | Some (tok, t) \<Rightarrow> (True, \<lparr>cred_token = tok, cred_fetched = t\<rparr>))"

definition cred_header :: "cred \<Rightarrow> header_map" where
  "cred_header c = [(''authorization'', ''token '' @ cred_token c)]"

text \<open>The successful exchange among the events that \<open>w'\<close> added to the trace of \<open>w\<close>.\<close>

definition new_fetch :: "world \<Rightarrow> world \<Rightarrow> (string \<times> system_time) option" where
  "new_fetch w w' = snd (foldl (fetch_event w) (None, None) (drop (length (trace w)) (trace w')))"

definition monotone_clock :: "world \<Rightarrow> bool" where
  "monotone_clock w \<longleftrightarrow> mono (clock w)"

text \<open>
  An environment in which nothing fails: the clock never goes back and starts at or after
  the epoch, the signer always produces a JWT that is a valid header value, and the server
  always answers with a non-error status and a body that decodes to a token that is a
  valid header value.
\<close>

definition good_env :: "world \<Rightarrow> bool" where
  "good_env w \<longleftrightarrow>
     monotone_clock w \<and> 0 \<le> clock w 0 \<and>
     (\<forall>h c k. \<exists>jwt. jwt_encode w h c k = Inr jwt \<and> list_all is_valid_header_byte jwt) \<and>
     (\<forall>n r. \<exists>resp raw. server w n r = Inr resp \<and> \<not> (400 \<le> status resp \<and> status resp \<le> 599) \<and>
        json_decode w (body resp) = Inr raw \<and> list_all is_valid_header_byte (raw_token raw))"

lemma new_fetch_append [simp]:
  "new_fetch w (w\<lparr>trace := trace w @ es\<rparr>) = snd (foldl (fetch_event w) (None, None) es)"
  by (simp add: new_fetch_def)

text \<open>C20. \<open>refresh\<close> refines the contract: on the abstract state, it does what \<open>cred_request\<close> does
  with the clock reading it took and the exchange it made.\<close>

theorem refresh_refines_cred_request:
  assumes "refresh s w = (r, s', w')"
  shows "cred_request (next_reading w) (new_fetch w w') (abs_cred s) = (r = Inr (), abs_cred s')"
  using assms
proof (cases rule: refresh_outcome)
  case behind
  then show ?thesis by (simp add: cred_request_def abs_cred_def)
next
  case not_due
  then show ?thesis by (simp add: cred_request_def abs_cred_def)
next
  case (failed e)
  from failed(3) show ?thesis
  proof (cases rule: get_installation_token_outcome)
    case (no_request e')
    with failed show ?thesis by (simp add: cred_request_def abs_cred_def)
  next
    case (request jwt)
    then have "token_response w (server w (requests_sent (trace w))
                 (sent_token_request (client s) (params s) jwt)) = Inl e"
      using failed(4) by simp
    with failed(1,2,4,5) request(4) show ?thesis by (simp add: cred_request_def abs_cred_def)
  qed
next
  case (fetched raw w3)
  from fetched(3) show ?thesis
  proof (cases rule: get_installation_token_outcome)
    case (no_request e')
    then show ?thesis by simp
  next
    case (request jwt)
    then have "token_response w (server w (requests_sent (trace w))
                 (sent_token_request (client s) (params s) jwt)) = Inr raw"
      by simp
    with fetched(1,2,4,5,6) request(4) show ?thesis by (simp add: cred_request_def abs_cred_def)
  qed
qed

text \<open>
  C21. Freshness: with a clock that never goes back, every credential \<open>header\<close> returns was
  fetched at most \<open>55 * 60\<close> whole seconds before the request's clock reading (a token
  fetched during the request counts as fetched at or after it).
\<close>

theorem header_credential_fresh:
  assumes "monotone_clock w" and "header s w = (Inr m, s', w')"
  shows "elapsed_secs s' (next_reading w) \<le> 55 * 60"
proof -
  from assms(2) obtain r where rf: "refresh s w = (r, s', w')" and r: "r = Inr ()"
    by (auto simp: header_refresh split: prod.splits sum.splits if_splits)
  from rf show ?thesis
  proof (cases rule: refresh_outcome)
    case (fetched raw w3)
    from fetched(3) show ?thesis
    proof (cases rule: get_installation_token_outcome)
      case (no_request e)
      then show ?thesis by simp
    next
      case (request jwt)
      have "next_reading w \<le> clock w (Suc (Suc (clock_reads (trace w))))"
        using assms(1) by (simp add: monotone_clock_def monoD)
      with fetched(5) request(4) show ?thesis by (simp add: as_secs_def)
    qed
  qed (use r in simp_all)
qed

subsection \<open>Progress in a good environment\<close>

lemma good_env_exchange:
  assumes "good_env w"
  obtains jwt raw where
    "jwt_encode w rs256_header (claims_at p (next_reading w)) (app_key p) = Inr jwt"
    "list_all is_valid_header_byte jwt"
    "fst (get_installation_token c p w) = Inr raw" "list_all is_valid_header_byte (raw_token raw)"
proof -
  from assms obtain jwt where j: "jwt_encode w rs256_header (claims_at p (next_reading w)) (app_key p) = Inr jwt"
    and v: "list_all is_valid_header_byte jwt"
    using assms unfolding good_env_def by blast
  from assms obtain resp raw where
    "server w (requests_sent (trace w)) (sent_token_request c p jwt) = Inr resp"
    "\<not> (400 \<le> status resp \<and> status resp \<le> 599)" "json_decode w (body resp) = Inr raw"
    and tv: "list_all is_valid_header_byte (raw_token raw)"
    by (meson good_env_def)
  moreover have "0 \<le> next_reading w"
    using assms by (auto simp: good_env_def monotone_clock_def intro: order_trans monoD)
  ultimately have r: "fst (get_installation_token c p w) = Inr raw"
    using j v by (simp add: get_installation_token_sent Let_def token_response_Inr_iff)
  show ?thesis by (rule that [OF j v r tv])
qed

lemma good_env_extends:
  "good_env w \<Longrightarrow> world_extends w w' \<Longrightarrow> good_env w'"
  by (simp add: good_env_def monotone_clock_def world_extends_def)

text \<open>The invariant of a good environment: a valid token, fetched at an earlier clock reading.\<close>

definition good_inv :: "world \<Rightarrow> installation_token \<Rightarrow> world \<Rightarrow> bool" where
  "good_inv w0 s w \<longleftrightarrow>
     list_all is_valid_header_byte (token s) \<and>
     (\<exists>i < clock_reads (trace w). fetch_time s = clock w0 i)"

lemma good_inv_new:
  assumes "good_env w0" and "installation_token_new p w0 = (Inr s, w)"
  shows "good_inv w0 s w"
  using assms(2)
proof (cases rule: installation_token_new_outcome)
  case (1 jwt resp raw)
  from assms(1) obtain resp' raw' where
    "server w0 (requests_sent (trace w0)) (sent_token_request \<lparr>client_user_agent = user_agent p\<rparr> p jwt) = Inr resp'"
    "json_decode w0 (body resp') = Inr raw'" "list_all is_valid_header_byte (raw_token raw')"
    by (meson good_env_def)
  with 1 show ?thesis by (auto simp: good_inv_def)
qed

lemma good_header_progress:
  assumes "good_env w0" and "world_extends w0 w" and "good_inv w0 s w"
  shows "\<exists>m s' w'. header s w = (Inr m, s', w') \<and> good_inv w0 s' w'"
proof -
  have g: "good_env w" using assms(1,2) by (rule good_env_extends)
  from assms(3) obtain i where i: "i < clock_reads (trace w)" and ft: "fetch_time s = clock w0 i"
    and tv: "list_all is_valid_header_byte (token s)"
    by (auto simp: good_inv_def)
  have cw: "clock w = clock w0" using assms(2) by (simp add: world_extends_def)
  have le: "fetch_time s \<le> next_reading w"
    using assms(1) i ft cw by (simp add: good_env_def monotone_clock_def monoD)
  show ?thesis
  proof (cases "elapsed_secs s (next_reading w) \<le> 55 * 60")
    case True
    moreover have "\<exists>j < Suc (clock_reads (trace w)). fetch_time s = clock w0 j"
      using i ft less_SucI by blast
    ultimately show ?thesis using le tv
      by (auto simp: header_refresh refresh_not_due good_inv_def)
  next
    case False
    have gl: "good_env (logged w)" using g by (rule good_env_extends) (rule world_extends_snoc)
    obtain raw where r: "fst (get_installation_token (client s) (params s) (logged w)) = Inr raw"
      and rv: "list_all is_valid_header_byte (raw_token raw)"
      using gl by (rule good_env_exchange)
    obtain w3 where gw: "get_installation_token (client s) (params s) (logged w) = (Inr raw, w3)"
      using r by (cases "get_installation_token (client s) (params s) (logged w)") auto
    from gw have w3: "clock w3 = clock w \<and> clock_reads (trace w3) = clock_reads (trace w) + 2"
      by (cases rule: get_installation_token_outcome) auto
    let ?s' = "s\<lparr>token := raw_token raw, fetch_time := next_reading w3\<rparr>"
    have rf: "refresh s w = (Inr (), ?s', after_read w3)"
      using le False gw by (simp add: refresh_due)
    have "header s w = (Inr [(''authorization'', ''token '' @ raw_token raw)], ?s', after_read w3)"
      using rf rv by (simp add: header_refresh)
    moreover have "good_inv w0 ?s' (after_read w3)"
      using rv w3 cw by (auto simp: good_inv_def)
    ultimately show ?thesis by blast
  qed
qed

lemma good_inv_reachable:
  assumes "token_reachable p w0 s w" and "good_env w0"
  shows "good_inv w0 s w"
  using assms(1)
proof (induction rule: token_reachable.induct)
  case (new s w)
  with assms(2) show ?case by (rule good_inv_new)
next
  case (header s w r s' w')
  have "world_extends w0 w"
    using token_reachable_inv [OF header.hyps(1)] by (simp add: token_inv_def)
  with assms(2) header.IH obtain m s'' w'' where
    "header s w = (Inr m, s'', w'')" and "good_inv w0 s'' w''"
    using good_header_progress by blast
  with header.hyps(2) show ?case by simp
qed

text \<open>
  C22. In an environment where nothing fails, a caller never has to handle an error: in
  every reachable state \<open>header\<close> succeeds, refreshing the token when it is due.
\<close>

theorem header_always_succeeds:
  assumes "good_env w0" and "token_reachable p w0 s w"
  shows "\<exists>m s' w'. header s w = (Inr m, s', w')"
proof -
  have "world_extends w0 w"
    using token_reachable_inv [OF assms(2)] by (simp add: token_inv_def)
  moreover have "good_inv w0 s w" using assms(2,1) by (rule good_inv_reachable)
  ultimately show ?thesis using assms(1) good_header_progress by blast
qed

end
