(* ===== verification/Json_Scan.thy ===== *)
theory Json_Scan
  imports Auth_Prelude "HOL-Library.Sublist"
begin

text \<open>
  The byte-level scanners of \<open>serde_json\<close> that \<open>Response::json()\<close> runs on the body
  of the token exchange (\<open>serde_json::from_slice\<close>, \<open>src/lib.rs\<close> line 117):
  whitespace, UTF-8, the escapes of a string, numbers and the literals. A \<open>string\<close>
  is a list of bytes here (an Isabelle \<open>char\<close> is a byte); every scanner takes the
  remaining input and returns the rest after what it consumed, or the error code
  \<open>serde_json\<close> reports. The lemmas show that every scanner that succeeds consumes
  input, which is what the loops of the later theories terminate by.
\<close>

datatype json_error =
    Eof_while_parsing_list
  | Eof_while_parsing_object
  | Eof_while_parsing_string
  | Eof_while_parsing_value
  | Expected_colon
  | Expected_list_comma_or_end
  | Expected_object_comma_or_end
  | Expected_some_ident
  | Expected_some_value
  | Invalid_escape
  | Invalid_number
  | Invalid_unicode_code_point
  | Key_must_be_a_string
  | Lone_leading_surrogate_in_hex_escape
  | Trailing_comma
  | Trailing_characters
  | Unexpected_end_of_hex_escape
  | Control_character_while_parsing_string
  | Invalid_type
  | Invalid_length nat
  | Missing_field string
  | Duplicate_field string
  | Message string
  | Panic string

text \<open>
  \<open>Message\<close> is \<open>ErrorCode::Message\<close>, the error a field's own deserializer reports
  through \<open>de::Error::custom\<close> (\<open>chrono\<close>'s parse errors). \<open>Panic\<close> is not an error
  of \<open>serde_json\<close>: it stands for a panic inside a field's deserializer, which unwinds
  through the decoder; the model reports it as a value so that the decoder stays total.
\<close>

abbreviation quote_char :: char where "quote_char \<equiv> CHR 0x22"

abbreviation backslash_char :: char where "backslash_char \<equiv> CHR 0x5C"

subsection \<open>Whitespace\<close>

text \<open>\<open>Deserializer::parse_whitespace\<close>: space, line feed, tab and carriage return.\<close>

definition is_ws :: "char \<Rightarrow> bool" where
  "is_ws c \<longleftrightarrow> c = CHR 0x20 \<or> c = CHR 0x0A \<or> c = CHR 0x09 \<or> c = CHR 0x0D"

definition skip_ws :: "string \<Rightarrow> string" where
  "skip_ws cs = dropWhile is_ws cs"

subsection \<open>UTF-8\<close>

text \<open>
  \<open>push_wtf8_codepoint\<close> for a scalar value below \<open>0x110000\<close>, and the check of
  \<open>str::from_utf8\<close>: shortest form only, no surrogates, nothing above \<open>U+10FFFF\<close>.
\<close>

definition utf8_encode :: "nat \<Rightarrow> string" where
  "utf8_encode n =
     (if n < 0x80 then [char_of n]
      else if n < 0x800 then [char_of (0xC0 + n div 64), char_of (0x80 + n mod 64)]
      else if n < 0x10000 then
        [char_of (0xE0 + n div 4096), char_of (0x80 + n div 64 mod 64), char_of (0x80 + n mod 64)]
      else [char_of (0xF0 + n div 262144), char_of (0x80 + n div 4096 mod 64),
            char_of (0x80 + n div 64 mod 64), char_of (0x80 + n mod 64)])"

definition utf8_cont :: "char \<Rightarrow> bool" where
  "utf8_cont c \<longleftrightarrow> (0x80::nat) \<le> of_char c \<and> of_char c < (0xC0::nat)"

definition utf8_second_ok :: "nat \<Rightarrow> char \<Rightarrow> bool" where
  "utf8_second_ok x c =
     (let y = (of_char c :: nat) in
      if x = 0xE0 then 0xA0 \<le> y \<and> y < 0xC0
      else if x = 0xED then 0x80 \<le> y \<and> y < 0xA0
      else if x = 0xF0 then 0x90 \<le> y \<and> y < 0xC0
      else if x = 0xF4 then 0x80 \<le> y \<and> y < 0x90
      else 0x80 \<le> y \<and> y < 0xC0)"

fun utf8_valid :: "string \<Rightarrow> bool" where
  "utf8_valid [] = True"
| "utf8_valid (a # cs) =
     (let x = (of_char a :: nat) in
      if x < 0x80 then utf8_valid cs
      else if 0xC2 \<le> x \<and> x < 0xE0 then
        (case cs of b # r \<Rightarrow> utf8_cont b \<and> utf8_valid r | [] \<Rightarrow> False)
      else if 0xE0 \<le> x \<and> x < 0xF0 then
        (case cs of b # c # r \<Rightarrow> utf8_second_ok x b \<and> utf8_cont c \<and> utf8_valid r | _ \<Rightarrow> False)
      else if 0xF0 \<le> x \<and> x < 0xF5 then
        (case cs of b # c # d # r \<Rightarrow>
           utf8_second_ok x b \<and> utf8_cont c \<and> utf8_cont d \<and> utf8_valid r | _ \<Rightarrow> False)
      else False)"

subsection \<open>Strings\<close>

text \<open>
  \<open>decode_hex_escape\<close>: the four hex digits of \<open>\u\<close>; fewer than four bytes left is
  end of input, a non-hex byte an invalid escape.
\<close>

definition hex_val :: "char \<Rightarrow> nat option" where
  "hex_val c =
     (let x = (of_char c :: nat) in
      if 48 \<le> x \<and> x < 58 then Some (x - 48)
      else if 65 \<le> x \<and> x < 71 then Some (x - 55)
      else if 97 \<le> x \<and> x < 103 then Some (x - 87)
      else None)"

fun decode_hex_escape :: "string \<Rightarrow> json_error + (nat \<times> string)" where
  "decode_hex_escape (a # b # c # d # cs) =
     (case (hex_val a, hex_val b, hex_val c, hex_val d) of
        (Some w, Some x, Some y, Some z) \<Rightarrow> Inr (((w * 16 + x) * 16 + y) * 16 + z, cs)
      | _ \<Rightarrow> Inl Invalid_escape)"
| "decode_hex_escape _ = Inl Eof_while_parsing_string"

text \<open>\<open>ignore_escape\<close>: the byte after a backslash when the string is skipped.\<close>

definition ignore_escape :: "string \<Rightarrow> json_error + string" where
  "ignore_escape cs =
     (case cs of
        [] \<Rightarrow> Inl Eof_while_parsing_string
      | c # r \<Rightarrow>
          if c \<in> set [quote_char, backslash_char, CHR ''/'', CHR ''b'', CHR ''f'', CHR ''n'',
                     CHR ''r'', CHR ''t''] then Inr r
          else if c = CHR ''u'' then (case decode_hex_escape r of Inl e \<Rightarrow> Inl e | Inr (_, r') \<Rightarrow> Inr r')
          else Inl Invalid_escape)"

text \<open>
  \<open>parse_unicode_escape\<close> in validating mode, after \<open>\u\<close>: a lone low surrogate is an
  error; a high surrogate must be followed by \<open>\u\<close> and a low surrogate, the pair
  combined into one scalar value; any other value is encoded as UTF-8.
\<close>

definition parse_unicode_escape :: "string \<Rightarrow> json_error + (string \<times> string)" where
  "parse_unicode_escape cs =
     (case decode_hex_escape cs of
        Inl e \<Rightarrow> Inl e
      | Inr (n, r) \<Rightarrow>
          if 0xDC00 \<le> n \<and> n \<le> 0xDFFF then Inl Lone_leading_surrogate_in_hex_escape
          else if n < 0xD800 \<or> 0xDBFF < n then Inr (utf8_encode n, r)
          else (case r of
                  [] \<Rightarrow> Inl Eof_while_parsing_string
                | b # r1 \<Rightarrow>
                    if b \<noteq> backslash_char then Inl Unexpected_end_of_hex_escape
                    else (case r1 of
                            [] \<Rightarrow> Inl Eof_while_parsing_string
                          | u # r2 \<Rightarrow>
                              if u \<noteq> CHR ''u'' then Inl Unexpected_end_of_hex_escape
                              else (case decode_hex_escape r2 of
                                      Inl e \<Rightarrow> Inl e
                                    | Inr (n2, r3) \<Rightarrow>
                                        if n2 < 0xDC00 \<or> 0xDFFF < n2
                                        then Inl Lone_leading_surrogate_in_hex_escape
                                        else Inr (utf8_encode ((n - 0xD800) * 1024 + (n2 - 0xDC00) + 0x10000),
                                                  r3)))))"

text \<open>\<open>parse_escape\<close>: the bytes one escape stands for.\<close>

definition parse_escape :: "string \<Rightarrow> json_error + (string \<times> string)" where
  "parse_escape cs =
     (case cs of
        [] \<Rightarrow> Inl Eof_while_parsing_string
      | c # r \<Rightarrow>
          if c = quote_char then Inr ([quote_char], r)
          else if c = backslash_char then Inr ([backslash_char], r)
          else if c = CHR ''/'' then Inr ([CHR ''/''], r)
          else if c = CHR ''b'' then Inr ([CHR 0x08], r)
          else if c = CHR ''f'' then Inr ([CHR 0x0C], r)
          else if c = CHR ''n'' then Inr ([CHR 0x0A], r)
          else if c = CHR ''r'' then Inr ([CHR 0x0D], r)
          else if c = CHR ''t'' then Inr ([CHR 0x09], r)
          else if c = CHR ''u'' then parse_unicode_escape r
          else Inl Invalid_escape)"

subsection \<open>Numbers and literals\<close>

definition is_digit_byte :: "char \<Rightarrow> bool" where
  "is_digit_byte c \<longleftrightarrow> (48::nat) \<le> of_char c \<and> of_char c < (58::nat)"

text \<open>\<open>ignore_exponent\<close>, after \<open>e\<close> or \<open>E\<close>: an optional sign and at least one digit.\<close>

definition ignore_exponent :: "string \<Rightarrow> json_error + string" where
  "ignore_exponent cs =
     (let cs1 = (case cs of c # r \<Rightarrow> if c = CHR ''+'' \<or> c = CHR ''-'' then r else cs | [] \<Rightarrow> [])
      in case cs1 of
           c # r \<Rightarrow> if is_digit_byte c then Inr (dropWhile is_digit_byte r) else Inl Invalid_number
         | [] \<Rightarrow> Inl Invalid_number)"

definition is_exp_mark :: "char \<Rightarrow> bool" where
  "is_exp_mark c \<longleftrightarrow> c = CHR ''e'' \<or> c = CHR ''E''"

text \<open>\<open>ignore_decimal\<close>, after the point: at least one digit, then an optional exponent.\<close>

definition ignore_decimal :: "string \<Rightarrow> json_error + string" where
  "ignore_decimal cs =
     (let r = dropWhile is_digit_byte cs in
      if r = cs then Inl Invalid_number
      else case r of c # r' \<Rightarrow> if is_exp_mark c then ignore_exponent r' else Inr r | [] \<Rightarrow> Inr [])"

text \<open>\<open>ignore_integer\<close>: one leading zero or a nonzero digit and more digits, then a
  fraction or an exponent.\<close>

definition ignore_integer :: "string \<Rightarrow> json_error + string" where
  "ignore_integer cs =
     (case cs of
        [] \<Rightarrow> Inl Invalid_number
      | c # r \<Rightarrow>
          if \<not> is_digit_byte c then Inl Invalid_number
          else if c = CHR ''0'' \<and> r \<noteq> [] \<and> is_digit_byte (hd r) then Inl Invalid_number
          else
            (let r1 = (if c = CHR ''0'' then r else dropWhile is_digit_byte r) in
             case r1 of
               d # r2 \<Rightarrow> if d = CHR ''.'' then ignore_decimal r2
                         else if is_exp_mark d then ignore_exponent r2 else Inr r1
             | [] \<Rightarrow> Inr []))"

text \<open>\<open>parse_ident\<close>: the rest of \<open>null\<close>, \<open>true\<close> or \<open>false\<close>.\<close>

fun parse_ident :: "string \<Rightarrow> string \<Rightarrow> json_error + string" where
  "parse_ident [] cs = Inr cs"
| "parse_ident (e # es) [] = Inl Eof_while_parsing_value"
| "parse_ident (e # es) (c # cs) = (if c = e then parse_ident es cs else Inl Expected_some_ident)"

subsection \<open>Writing a string\<close>

text \<open>
  The inverse of \<open>parse_str\<close> used to state round trips: a string written as JSON
  escapes the quote and the backslash and writes a control byte as \<open>\u00XX\<close> with
  lowercase hex digits, as RFC 8259 requires; every other byte is copied.
\<close>

definition hex_digit :: "nat \<Rightarrow> char" where
  "hex_digit d = (if d < 10 then char_of (48 + d) else char_of (87 + d))"

definition escape_char :: "char \<Rightarrow> string" where
  "escape_char c =
     (if c = quote_char then [backslash_char, quote_char]
      else if c = backslash_char then [backslash_char, backslash_char]
      else if of_char c < (0x20::nat) then
        [backslash_char, CHR ''u'', CHR ''0'', CHR ''0'', hex_digit (of_char c div 16), hex_digit (of_char c mod 16)]
      else [c])"

definition json_escape :: "string \<Rightarrow> string" where
  "json_escape s = concat (map escape_char s)"

definition json_str :: "string \<Rightarrow> string" where
  "json_str s = quote_char # json_escape s @ [quote_char]"

subsection \<open>Properties\<close>

lemma decode_hex_escape_length: "decode_hex_escape cs = Inr (n, r) \<Longrightarrow> length r < length cs"
  by (induction cs rule: decode_hex_escape.induct) (auto split: option.splits)

lemma ignore_escape_length: "ignore_escape cs = Inr r \<Longrightarrow> length r < length cs"
  by (auto simp: ignore_escape_def split: list.splits if_splits sum.splits
           dest!: decode_hex_escape_length)

lemma parse_unicode_escape_length: "parse_unicode_escape cs = Inr (bs, r) \<Longrightarrow> length r < length cs"
  by (auto simp: parse_unicode_escape_def split: sum.splits if_splits list.splits
           dest!: decode_hex_escape_length)

lemma parse_escape_length: "parse_escape cs = Inr (bs, r) \<Longrightarrow> length r < length cs"
  by (auto simp: parse_escape_def split: list.splits if_splits dest!: parse_unicode_escape_length)

lemma ignore_exponent_length: "ignore_exponent cs = Inr r \<Longrightarrow> length r < length cs"
  using length_dropWhile_le [of is_digit_byte]
  by (auto simp: ignore_exponent_def Let_def less_Suc_eq_le split: list.splits if_splits
           intro: le_SucI)

lemma dropWhile_length_less:
  "dropWhile P cs \<noteq> cs \<Longrightarrow> length (dropWhile P cs) < length cs"
  using length_dropWhile_le [of P] by (induction cs) (auto intro: le_imp_less_Suc split: if_splits)

lemma ignore_decimal_length: "ignore_decimal cs = Inr r \<Longrightarrow> length r < length cs"
proof -
  assume a: "ignore_decimal cs = Inr r"
  let ?d = "dropWhile is_digit_byte cs"
  have lt: "length ?d < length cs" and ne: "?d \<noteq> cs"
    using a dropWhile_length_less [of is_digit_byte cs]
    by (auto simp: ignore_decimal_def Let_def split: if_splits)
  show ?thesis
  proof (cases ?d)
    case Nil
    with a ne show ?thesis by (auto simp: ignore_decimal_def)
  next
    case (Cons c r')
    with ne have "ignore_decimal cs = (if is_exp_mark c then ignore_exponent r' else Inr (c # r'))"
      by (simp add: ignore_decimal_def Let_def)
    moreover have "length (c # r') < length cs" using lt unfolding Cons .
    ultimately show ?thesis using a by (auto split: if_splits dest: ignore_exponent_length [OF sym])
  qed
qed

lemma number_tail_length:
  assumes "(case r1 of d # r2 \<Rightarrow> if d = CHR ''.'' then ignore_decimal r2
                              else if is_exp_mark d then ignore_exponent r2 else Inr r1
                    | [] \<Rightarrow> Inr []) = Inr r"
  shows "length r \<le> length r1"
  using assms
  by (auto split: list.splits if_splits dest!: ignore_decimal_length ignore_exponent_length)

lemma ignore_integer_length: "ignore_integer cs = Inr r \<Longrightarrow> length r < length cs"
proof -
  assume a: "ignore_integer cs = Inr r"
  then obtain c r0 where cs: "cs = c # r0" by (cases cs) (auto simp: ignore_integer_def)
  let ?r1 = "if c = CHR ''0'' then r0 else dropWhile is_digit_byte r0"
  have "length ?r1 \<le> length r0" by (simp add: length_dropWhile_le)
  moreover have "(case ?r1 of d # r2 \<Rightarrow> if d = CHR ''.'' then ignore_decimal r2
                                 else if is_exp_mark d then ignore_exponent r2 else Inr ?r1
                        | [] \<Rightarrow> Inr []) = Inr r"
    using a by (simp add: ignore_integer_def cs Let_def split: if_splits)
  ultimately show ?thesis using cs by (auto dest!: number_tail_length)
qed

lemma parse_ident_length: "parse_ident es cs = Inr r \<Longrightarrow> length r \<le> length cs"
  by (induction es cs rule: parse_ident.induct) (auto split: if_splits)

lemma skip_ws_length: "length (skip_ws cs) \<le> length cs"
  by (simp add: skip_ws_def length_dropWhile_le)

lemma skip_ws_Nil [simp]: "skip_ws [] = []"
  by (simp add: skip_ws_def)

lemma skip_ws_Cons [simp]: "skip_ws (c # cs) = (if is_ws c then skip_ws cs else c # cs)"
  by (simp add: skip_ws_def)

lemma skip_ws_idem [simp]: "skip_ws (skip_ws cs) = skip_ws cs"
  by (simp add: skip_ws_def)

lemma skip_ws_Cons_length: "skip_ws cs = c # r \<Longrightarrow> length r < length cs"
  using skip_ws_length [of cs] by simp

lemma utf8_valid_ascii: "\<forall>c\<in>set s. of_char c < (128::nat) \<Longrightarrow> utf8_valid s"
  by (induction s) (auto simp: Let_def)

lemma hex_val_hex_digit [simp]: "d < 16 \<Longrightarrow> hex_val (hex_digit d) = Some d"
  by (auto simp: hex_val_def hex_digit_def Let_def)

lemma hex_val_zero [simp]: "hex_val CHR ''0'' = Some 0"
  by (simp add: hex_val_def)

lemma parse_escape_char:
  "c = quote_char \<or> c = backslash_char \<or> of_char c < (0x20::nat) \<Longrightarrow>
   escape_char c = backslash_char # tl (escape_char c) \<and> parse_escape (tl (escape_char c) @ rest) = Inr ([c], rest)"
proof -
  assume a: "c = quote_char \<or> c = backslash_char \<or> of_char c < (0x20::nat)"
  show ?thesis
  proof (cases "c = quote_char \<or> c = backslash_char")
    case True then show ?thesis by (auto simp: escape_char_def parse_escape_def)
  next
    case False
    then have lt: "of_char c < (0x20::nat)" using a by blast
    then have "of_char c div 16 < (16::nat)" "of_char c mod 16 < (16::nat)" by simp_all
    then have "decode_hex_escape ([CHR ''0'', CHR ''0'', hex_digit (of_char c div 16), hex_digit (of_char c mod 16)] @ rest)
        = Inr (of_char c, rest)"
      by (simp add: hex_val_zero)
    then show ?thesis using False lt
      by (simp add: escape_char_def parse_escape_def parse_unicode_escape_def utf8_encode_def)
  qed
qed


subsection \<open>The encoding of an escape\<close>

text \<open>
  The bytes \<open>parse_unicode_escape\<close> writes for a scalar value (a code point below
  \<open>0x110000\<close> that is not a surrogate) are valid UTF-8, so a decoded escape never makes
  \<open>parse_str\<close>'s final UTF-8 check fail.
\<close>

theorem utf8_encode_valid:
  assumes "n < 0x110000" and "n < 0xD800 \<or> 0xDFFF < n"
  shows "utf8_valid (utf8_encode n)"
proof -
  consider (a) "n < 0x80" | (b) "0x80 \<le> n" "n < 0x800" | (c) "0x800 \<le> n" "n < 0x10000"
    | (d) "0x10000 \<le> n" by linarith
  then show ?thesis
  proof cases
    case a then show ?thesis by (simp add: utf8_encode_def)
  next
    case b
    then have "2 \<le> n div 64" "n div 64 < 32" by simp_all
    then show ?thesis using b
      by (simp add: utf8_encode_def utf8_cont_def Let_def)
  next
    case c
    have f1: "n = 64 * (n div 64) + n mod 64" "n mod 64 < 64" by simp_all
    have "n div 64 div 64 = n div 4096" by (simp add: div_mult2_eq)
    then have f2: "n div 64 = 64 * (n div 4096) + n div 64 mod 64" "n div 64 mod 64 < 64"
      by (metis div_mult_mod_eq mult.commute, simp)
    have f3: "n = 4096 * (n div 4096) + n mod 4096" "n mod 4096 < 4096" by simp_all
    have e0: "n div 4096 = 0 \<Longrightarrow> 32 \<le> n div 64 \<and> n div 64 < 64"
      using c f1 f2 f3 by linarith
    have e13: "n div 4096 = 13 \<Longrightarrow> n div 64 mod 64 < 32"
      using c assms(2) f1 f2 f3 by linarith
    have "n div 4096 < 16" using c by simp
    then show ?thesis using c assms e0 e13
      by (simp add: utf8_encode_def utf8_cont_def utf8_second_ok_def Let_def)
  next
    case d
    have g1: "n = 4096 * (n div 4096) + n mod 4096" "n mod 4096 < 4096" by simp_all
    have "n div 4096 div 64 = n div 262144" by (simp add: div_mult2_eq)
    then have g2: "n div 4096 = 64 * (n div 262144) + n div 4096 mod 64" "n div 4096 mod 64 < 64"
      by (metis div_mult_mod_eq mult.commute, simp)
    have g3: "n = 262144 * (n div 262144) + n mod 262144" "n mod 262144 < 262144" by simp_all
    have e0: "n div 262144 = 0 \<Longrightarrow> 16 \<le> n div 4096 \<and> n div 4096 < 64"
      using d g1 g2 g3 by linarith
    have e4: "n div 262144 = 4 \<Longrightarrow> n div 4096 mod 64 < 16"
      using assms(1) g1 g2 g3 by linarith
    have "n div 262144 < 5" using assms(1) g3 by linarith
    then show ?thesis using d assms e0 e4
      by (simp add: utf8_encode_def utf8_cont_def utf8_second_ok_def Let_def)
  qed
qed

lemma utf8_encode_valid_witness:
  "(0x1F600::nat) < 0x110000 \<and> ((0x1F600::nat) < 0xD800 \<or> 0xDFFF < (0x1F600::nat)) \<and>
   utf8_valid (utf8_encode 0x1F600)"
  using utf8_encode_valid [of "0x1F600"] by simp


subsection \<open>Every scanner returns a suffix of its input\<close>

text \<open>
  The length lemmas above are what the loops terminate by; the suffix lemmas say more:
  what a scanner returns is the end of its input, so a later read starts at a byte of
  the original text.
\<close>

lemma suffix_Cons_trans: "suffix r x \<Longrightarrow> suffix x cs \<Longrightarrow> suffix r (c # cs)"
  by (metis suffix_ConsI suffix_order.order_trans)

lemma skip_ws_suffix [simp]: "suffix (skip_ws cs) cs"
  by (simp add: skip_ws_def suffix_dropWhile)

lemma skip_ws_Cons_suffix: "skip_ws cs = c # r \<Longrightarrow> suffix r cs"
  using skip_ws_suffix [of cs] by (metis suffix_ConsD suffix_order.order_trans)

lemma decode_hex_escape_suffix: "decode_hex_escape cs = Inr (n, r) \<Longrightarrow> suffix r cs"
  by (induction cs rule: decode_hex_escape.induct) (auto split: option.splits intro: suffix_ConsI)

lemma ignore_escape_suffix: "ignore_escape cs = Inr r \<Longrightarrow> suffix r cs"
  by (auto simp: ignore_escape_def split: list.splits if_splits sum.splits
           dest!: decode_hex_escape_suffix intro: suffix_ConsI)

lemma parse_unicode_escape_suffix: "parse_unicode_escape cs = Inr (bs, r) \<Longrightarrow> suffix r cs"
  by (auto simp: parse_unicode_escape_def split: sum.splits if_splits list.splits
           dest!: decode_hex_escape_suffix intro: suffix_ConsI suffix_order.order_trans)
     (metis suffix_ConsD suffix_order.order_trans)

lemma parse_escape_suffix: "parse_escape cs = Inr (bs, r) \<Longrightarrow> suffix r cs"
  by (auto simp: parse_escape_def split: list.splits if_splits
           dest!: parse_unicode_escape_suffix intro: suffix_ConsI)

lemma ignore_exponent_suffix: "ignore_exponent cs = Inr r \<Longrightarrow> suffix r cs"
  by (auto simp: ignore_exponent_def Let_def split: list.splits if_splits
           intro: suffix_ConsI suffix_dropWhile suffix_order.order_trans)

lemma ignore_decimal_suffix: "ignore_decimal cs = Inr r \<Longrightarrow> suffix r cs"
  using suffix_dropWhile [of is_digit_byte cs]
  by (auto simp: ignore_decimal_def Let_def split: list.splits if_splits
           dest!: ignore_exponent_suffix intro: suffix_ConsI suffix_order.order_trans)

lemma ignore_integer_suffix: "ignore_integer cs = Inr r \<Longrightarrow> suffix r cs"
  using suffix_dropWhile [of is_digit_byte "tl cs"]
  by (auto simp: ignore_integer_def Let_def split: list.splits if_splits
           dest!: ignore_exponent_suffix ignore_decimal_suffix
           intro: suffix_ConsI suffix_order.order_trans)

lemma parse_ident_suffix: "parse_ident es cs = Inr r \<Longrightarrow> suffix r cs"
  by (induction es cs rule: parse_ident.induct) (auto split: if_splits intro: suffix_ConsI)

subsection \<open>UTF-8 at character boundaries\<close>

text \<open>
  An ASCII byte never continues a multi-byte character, so a valid text splits at it;
  and an escape consumes ASCII bytes and writes valid UTF-8.
\<close>

lemma utf8_valid_append: "utf8_valid p \<Longrightarrow> utf8_valid q \<Longrightarrow> utf8_valid (p @ q)"
proof (induction p rule: utf8_valid.induct)
  case (2 a cs)
  then show ?case
    by (simp add: Let_def split: list.split_asm if_split_asm)
qed simp

lemma ascii_not_cont:
  "of_char c < (128::nat) \<Longrightarrow> \<not> utf8_cont c \<and> \<not> utf8_second_ok y c"
  by (simp add: utf8_cont_def utf8_second_ok_def Let_def)

lemma utf8_valid_split_ascii:
  assumes "utf8_valid (p @ c # q)" and c: "of_char c < (128::nat)"
  shows "utf8_valid p \<and> utf8_valid (c # q)"
  using assms(1)
proof (induction p rule: utf8_valid.induct)
  case (2 a cs)
  note nc = ascii_not_cont [OF c]
  consider (one) "of_char a < (128::nat)"
    | (two) "\<not> of_char a < (128::nat)" "194 \<le> (of_char a::nat) \<and> (of_char a::nat) < 224"
    | (three) "\<not> of_char a < (128::nat)" "\<not> (194 \<le> (of_char a::nat) \<and> (of_char a::nat) < 224)"
        "224 \<le> (of_char a::nat) \<and> (of_char a::nat) < 240"
    | (four) "\<not> of_char a < (128::nat)" "\<not> (194 \<le> (of_char a::nat) \<and> (of_char a::nat) < 224)"
        "\<not> (224 \<le> (of_char a::nat) \<and> (of_char a::nat) < 240)" "240 \<le> (of_char a::nat) \<and> (of_char a::nat) < 245"
    | (bad) "\<not> of_char a < (128::nat)" "\<not> (194 \<le> (of_char a::nat) \<and> (of_char a::nat) < 224)"
        "\<not> (224 \<le> (of_char a::nat) \<and> (of_char a::nat) < 240)" "\<not> (240 \<le> (of_char a::nat) \<and> (of_char a::nat) < 245)"
    by blast
  then show ?case
  proof cases
    case one
    then show ?thesis using "2.prems" "2.IH"(1) [OF refl one] by (simp add: Let_def c)
  next
    case two
    obtain b r where cs: "cs = b # r"
      using "2.prems" two nc by (cases cs) (simp_all add: Let_def)
    then show ?thesis using "2.prems" "2.IH"(2) [OF refl two cs] two by (simp add: Let_def c)
  next
    case three
    obtain b d r where cs: "cs = b # d # r"
      using "2.prems" three nc by (cases cs; cases "tl cs") (simp_all add: Let_def split: list.split_asm)
    then show ?thesis using "2.prems" "2.IH"(3) [OF refl three cs(1) refl] three by (simp add: Let_def c)
  next
    case four
    obtain b d e r where cs: "cs = b # d # e # r"
      using "2.prems" four nc
      by (cases cs; cases "tl cs"; cases "tl (tl cs)") (simp_all add: Let_def split: list.split_asm)
    then show ?thesis using "2.prems" "2.IH"(4) [OF refl four cs(1) refl refl] four by (simp add: Let_def c)
  next
    case bad
    then show ?thesis using "2.prems" by (auto simp: Let_def split: if_splits)
  qed
qed simp

lemma hex_val_ascii: "hex_val c = Some v \<Longrightarrow> of_char c < (128::nat) \<and> v < 16"
  by (simp add: hex_val_def Let_def split: if_splits)

lemma decode_hex_escape_utf8:
  assumes "decode_hex_escape cs = Inr (n, r)" and "utf8_valid cs"
  shows "utf8_valid r \<and> n < 0x10000"
proof -
  obtain a b c d where cs: "cs = a # b # c # d # r"
    and h: "\<exists>w x y z. hex_val a = Some w \<and> hex_val b = Some x \<and> hex_val c = Some y \<and>
                     hex_val d = Some z \<and> n = ((w * 16 + x) * 16 + y) * 16 + z"
    using assms(1) by (cases cs rule: decode_hex_escape.cases) (auto split: option.splits)
  then obtain w x y z where hv: "hex_val a = Some w" "hex_val b = Some x" "hex_val c = Some y"
    "hex_val d = Some z" and n: "n = ((w * 16 + x) * 16 + y) * 16 + z" by blast
  note asc = hex_val_ascii [OF hv(1)] hex_val_ascii [OF hv(2)] hex_val_ascii [OF hv(3)] hex_val_ascii [OF hv(4)]
  have "utf8_valid r" using assms(2) cs asc by (simp add: Let_def)
  moreover have "n < 0x10000" using n asc by simp
  ultimately show ?thesis ..
qed

lemma parse_unicode_escape_utf8:
  assumes "parse_unicode_escape cs = Inr (bs, r)" and "utf8_valid cs"
  shows "utf8_valid bs \<and> utf8_valid r"
proof -
  obtain n r0 where d: "decode_hex_escape cs = Inr (n, r0)"
    using assms(1) by (auto simp: parse_unicode_escape_def split: sum.splits)
  note d0 = decode_hex_escape_utf8 [OF d assms(2)]
  show ?thesis
  proof (cases "n < 0xD800 \<or> 0xDFFF < n")
    case True
    then have "bs = utf8_encode n" "r = r0"
      using assms(1) d by (auto simp: parse_unicode_escape_def)
    then show ?thesis using utf8_encode_valid [of n] True d0 by simp
  next
    case False
    then have hi: "0xD800 \<le> n" "n \<le> 0xDBFF"
      using assms(1) d by (auto simp: parse_unicode_escape_def split: if_splits)
    then obtain r1 where r0: "r0 = backslash_char # CHR ''u'' # r1"
      using assms(1) d by (auto simp: parse_unicode_escape_def split: list.splits if_splits)
    then obtain n2 where d2: "decode_hex_escape r1 = Inr (n2, r)"
      and lo: "0xDC00 \<le> n2" "n2 \<le> 0xDFFF"
      and bs: "bs = utf8_encode ((n - 0xD800) * 1024 + (n2 - 0xDC00) + 0x10000)"
      using assms(1) d hi by (auto simp: parse_unicode_escape_def split: sum.splits if_splits)
    have "utf8_valid r1" using d0 r0 by (simp add: Let_def)
    then have "utf8_valid r" using decode_hex_escape_utf8 [OF d2] by simp
    moreover have "utf8_valid bs" using bs hi lo utf8_encode_valid by simp
    ultimately show ?thesis by simp
  qed
qed

lemma parse_escape_utf8:
  assumes "parse_escape cs = Inr (bs, r)" and "utf8_valid cs"
  shows "utf8_valid bs \<and> utf8_valid r"
proof (cases cs)
  case (Cons c r0)
  show ?thesis
  proof (cases "c = CHR ''u''")
    case True
    then show ?thesis using assms Cons parse_unicode_escape_utf8 [of r0 bs r]
      by (simp add: parse_escape_def Let_def)
  next
    case False
    then show ?thesis using assms Cons
      by (auto simp: parse_escape_def Let_def split: if_splits)
  qed
qed (use assms in \<open>simp add: parse_escape_def\<close>)

end
