(* ===== verification/Json_String.thy ===== *)
theory Json_String
  imports Json_Scan
begin

text \<open>
  The two string readers of \<open>serde_json\<close>'s \<open>SliceRead\<close>: \<open>parse_str\<close>, which decodes
  escapes and checks UTF-8 and is used for keys and for the values the visitor keeps,
  and \<open>ignore_str\<close>, which only checks the syntax and is used for skipped values;
  \<open>StrRead\<close>'s \<open>str_parse_str\<close>, which skips the UTF-8 check and agrees with
  \<open>parse_str\<close> on UTF-8 input (\<open>str_parse_str_eq\<close>); and the scalar arms of
  \<open>ignore_value\<close>. The round trip \<open>parse_str_escape\<close> shows that
  every UTF-8 string written as a JSON string literal is read back exactly.
\<close>

text \<open>
  \<open>SliceRead::ignore_str\<close>, entered after the opening quote: up to the closing quote,
  rejecting control bytes and malformed escapes; no UTF-8 check and no surrogate check.
\<close>

function ignore_str :: "string \<Rightarrow> json_error + string" where
  "ignore_str [] = Inl Eof_while_parsing_string"
| "ignore_str (c # cs) =
     (if c = quote_char then Inr cs
      else if c = backslash_char then
        (case ignore_escape cs of Inl e \<Rightarrow> Inl e | Inr r \<Rightarrow> ignore_str r)
      else if of_char c < (0x20::nat) then Inl Control_character_while_parsing_string
      else ignore_str cs)"
  by pat_completeness auto
termination
  by (relation "measure length") (auto dest: ignore_escape_length)

text \<open>
  \<open>SliceRead::parse_str\<close>, entered after the opening quote, with the bytes read so far
  in \<open>scratch\<close>: control bytes are refused, escapes decoded, and at the closing quote the
  whole content must be UTF-8 (\<open>as_str\<close>).
\<close>

function parse_str_bytes :: "string \<Rightarrow> string \<Rightarrow> json_error + (string \<times> string)" where
  "parse_str_bytes scratch [] = Inl Eof_while_parsing_string"
| "parse_str_bytes scratch (c # cs) =
     (if c = quote_char then
        (if utf8_valid scratch then Inr (scratch, cs) else Inl Invalid_unicode_code_point)
      else if c = backslash_char then
        (case parse_escape cs of Inl e \<Rightarrow> Inl e | Inr (bs, r) \<Rightarrow> parse_str_bytes (scratch @ bs) r)
      else if of_char c < (0x20::nat) then Inl Control_character_while_parsing_string
      else parse_str_bytes (scratch @ [c]) cs)"
  by pat_completeness auto
termination
  by (relation "measure (\<lambda>(_, cs). length cs)") (auto dest: parse_escape_length)

definition parse_str :: "string \<Rightarrow> json_error + (string \<times> string)" where
  "parse_str cs = parse_str_bytes [] cs"

text \<open>
  \<open>StrRead::parse_str\<close>, the reader of \<open>serde_json::from_str\<close>: the same loop, but
  the input is a \<open>&str\<close>, already UTF-8, so the content is taken as it is at the
  closing quote (\<open>from_utf8_unchecked\<close>).
\<close>

function str_parse_str_bytes :: "string \<Rightarrow> string \<Rightarrow> json_error + (string \<times> string)" where
  "str_parse_str_bytes scratch [] = Inl Eof_while_parsing_string"
| "str_parse_str_bytes scratch (c # cs) =
     (if c = quote_char then Inr (scratch, cs)
      else if c = backslash_char then
        (case parse_escape cs of Inl e \<Rightarrow> Inl e | Inr (bs, r) \<Rightarrow> str_parse_str_bytes (scratch @ bs) r)
      else if of_char c < (0x20::nat) then Inl Control_character_while_parsing_string
      else str_parse_str_bytes (scratch @ [c]) cs)"
  by pat_completeness auto
termination
  by (relation "measure (\<lambda>(_, cs). length cs)") (auto dest: parse_escape_length)

definition str_parse_str :: "string \<Rightarrow> json_error + (string \<times> string)" where
  "str_parse_str cs = str_parse_str_bytes [] cs"

text \<open>
  \<open>serde_json\<close>'s \<open>Read\<close> implementations the crate reaches: \<open>SliceRead\<close>
  (\<open>from_slice\<close>, which \<open>Response::json\<close> calls) and \<open>StrRead\<close> (\<open>from_str\<close>, which
  the unit test calls). \<open>Deserializer<R>\<close> differs between them only in
  \<open>Read::parse_str\<close>.
\<close>

datatype json_read = Slice_read | Str_read

fun read_str :: "json_read \<Rightarrow> string \<Rightarrow> json_error + (string \<times> string)" where
  "read_str Slice_read cs = parse_str cs"
| "read_str Str_read cs = str_parse_str cs"

text \<open>The scalar arms of the loop: the value starting with byte \<open>c\<close>, rest \<open>r\<close>.\<close>

definition ignore_scalar :: "char \<Rightarrow> string \<Rightarrow> json_error + string" where
  "ignore_scalar c r =
     (if c = CHR ''n'' then parse_ident ''ull'' r
      else if c = CHR ''t'' then parse_ident ''rue'' r
      else if c = CHR ''f'' then parse_ident ''alse'' r
      else if c = CHR ''-'' then ignore_integer r
      else if is_digit_byte c then ignore_integer (c # r)
      else if c = quote_char then ignore_str r
      else Inl Expected_some_value)"

subsection \<open>Properties\<close>

lemma parse_str_bytes_length: "parse_str_bytes acc cs = Inr (s, r) \<Longrightarrow> length r < length cs"
proof (induction acc cs rule: parse_str_bytes.induct)
  case (2 acc c cs)
  then show ?case
    by (fastforce split: if_splits sum.splits dest: parse_escape_length)
qed simp

lemma parse_str_length: "parse_str cs = Inr (s, r) \<Longrightarrow> length r < length cs"
  by (simp add: parse_str_def parse_str_bytes_length)

lemma ignore_str_length: "ignore_str cs = Inr r \<Longrightarrow> length r < length cs"
proof (induction cs rule: ignore_str.induct)
  case (2 c cs)
  then show ?case
    using ignore_escape_length [of cs] by (fastforce split: if_splits sum.splits)
qed simp

lemma ignore_scalar_length: "ignore_scalar c r = Inr r' \<Longrightarrow> length r' \<le> length r"
  by (auto simp: ignore_scalar_def split: if_splits
           dest: parse_ident_length ignore_integer_length ignore_str_length)

lemma parse_str_bytes_escape:
  "parse_str_bytes acc (json_escape s @ quote_char # rest) =
     (if utf8_valid (acc @ s) then Inr (acc @ s, rest) else Inl Invalid_unicode_code_point)"
proof (induction s arbitrary: acc)
  case Nil
  then show ?case by (simp add: json_escape_def)
next
  case (Cons c s)
  show ?case
  proof (cases "c = quote_char \<or> c = backslash_char \<or> of_char c < (0x20::nat)")
    case True
    from parse_escape_char [OF True, of "json_escape s @ quote_char # rest"]
    obtain t where "escape_char c = backslash_char # t"
      and "parse_escape (t @ json_escape s @ quote_char # rest) = Inr ([c], json_escape s @ quote_char # rest)"
      by auto
    then show ?thesis using Cons.IH [of "acc @ [c]"] by (simp add: json_escape_def)
  next
    case False
    then show ?thesis using Cons.IH [of "acc @ [c]"] by (simp add: json_escape_def escape_char_def)
  qed
qed

lemma parse_str_escape:
  "utf8_valid s \<Longrightarrow> parse_str (json_escape s @ quote_char # rest) = Inr (s, rest)"
  by (simp add: parse_str_def parse_str_bytes_escape)


lemma parse_unicode_escape_ignore:
  assumes p: "parse_unicode_escape cs = Inr (bs, r)"
  shows "ignore_str (backslash_char # CHR ''u'' # cs) = ignore_str r"
proof -
  obtain n r1 where d: "decode_hex_escape cs = Inr (n, r1)"
    using p by (cases "decode_hex_escape cs") (auto simp: parse_unicode_escape_def)
  have s1: "ignore_str (backslash_char # CHR ''u'' # cs) = ignore_str r1"
    using d by (simp add: ignore_escape_def)
  show ?thesis
  proof (cases "n < 0xD800 \<or> 0xDBFF < n")
    case True
    then have "r = r1" using p d by (auto simp: parse_unicode_escape_def split: if_splits)
    with s1 show ?thesis by simp
  next
    case False
    then obtain r2 n2 where r1: "r1 = backslash_char # CHR ''u'' # r2"
      and d2: "decode_hex_escape r2 = Inr (n2, r)"
      using p d by (auto simp: parse_unicode_escape_def split: list.splits if_splits sum.splits)
    have "ignore_str r1 = ignore_str r" using d2 r1 by (simp add: ignore_escape_def)
    with s1 show ?thesis by simp
  qed
qed

lemma parse_escape_ignore:
  assumes "parse_escape cs = Inr (bs, r)"
  shows "ignore_str (backslash_char # cs) = ignore_str r"
proof (cases cs)
  case (Cons c cs')
  show ?thesis
  proof (cases "c = CHR ''u''")
    case True
    then show ?thesis using assms Cons parse_unicode_escape_ignore [of cs' bs r]
      by (simp add: parse_escape_def)
  next
    case False
    then show ?thesis using assms Cons
      by (auto simp: parse_escape_def ignore_escape_def split: if_splits)
  qed
qed (use assms in \<open>simp add: parse_escape_def\<close>)

lemma parse_str_bytes_ignore_str:
  "parse_str_bytes acc cs = Inr (s, r) \<Longrightarrow> ignore_str cs = Inr r"
proof (induction acc cs rule: parse_str_bytes.induct)
  case (2 acc c cs)
  show ?case
  proof (cases "c = quote_char")
    case True then show ?thesis using "2.prems" by (simp split: if_splits)
  next
    case q: False
    show ?thesis
    proof (cases "c = backslash_char")
      case True
      then obtain bs r' where e: "parse_escape cs = Inr (bs, r')"
        and p: "parse_str_bytes (acc @ bs) r' = Inr (s, r)"
        using "2.prems" q by (auto split: sum.splits)
      then show ?thesis using "2.IH"(1) [OF q True e] True parse_escape_ignore [OF e] by simp
    next
      case False
      then show ?thesis using "2.prems" "2.IH"(2) q by (auto split: if_splits)
    qed
  qed
qed simp

lemma parse_str_bytes_utf8: "parse_str_bytes acc cs = Inr (s, r) \<Longrightarrow> utf8_valid s"
  by (induction acc cs rule: parse_str_bytes.induct) (auto split: if_splits sum.splits)

text \<open>
  On a \<open>&str\<close> the check \<open>SliceRead\<close> makes and \<open>StrRead\<close> skips never fails:
  the two readers agree on every valid UTF-8 input.
\<close>

lemma str_parse_str_bytes_eq:
  "utf8_valid (scratch @ cs) \<Longrightarrow> str_parse_str_bytes scratch cs = parse_str_bytes scratch cs"
proof (induction scratch cs rule: parse_str_bytes.induct)
  case (2 scratch c cs)
  show ?case
  proof (cases "c = quote_char \<or> c = backslash_char \<or> of_char c < (0x20::nat)")
    case True
    note special = True
    then have a: "of_char c < (128::nat)" by auto
    note sp = utf8_valid_split_ascii [OF "2.prems" a]
    then have cs: "utf8_valid cs" using a by (simp add: Let_def)
    show ?thesis
    proof (cases "c = backslash_char")
      case True
      then show ?thesis
      proof (cases "parse_escape cs")
        case (Inr p)
        obtain bs r where p: "p = (bs, r)" by (cases p)
        have "utf8_valid bs \<and> utf8_valid r" using parse_escape_utf8 [of cs bs r] Inr p cs by simp
        then have "utf8_valid ((scratch @ bs) @ r)" using sp utf8_valid_append by simp
        moreover have "c \<noteq> quote_char" using True by simp
        ultimately show ?thesis using "2.IH"(1) [OF _ True Inr p [symmetric]] True Inr p by simp
      qed simp
    qed (use sp special in auto)
  next
    case False
    then show ?thesis using "2.IH"(2) [OF _ _ _] "2.prems" by simp
  qed
qed simp

lemma str_parse_str_eq: "utf8_valid cs \<Longrightarrow> str_parse_str cs = parse_str cs"
  by (simp add: str_parse_str_def parse_str_def str_parse_str_bytes_eq)

lemma parse_str_bytes_suffix: "parse_str_bytes acc cs = Inr (s, r) \<Longrightarrow> suffix r cs"
proof (induction acc cs rule: parse_str_bytes.induct)
  case (2 acc c cs)
  then show ?case
    by (fastforce split: if_splits sum.splits intro: suffix_ConsI suffix_Cons_trans
                  dest: parse_escape_suffix)
qed simp

lemma str_parse_str_bytes_suffix: "str_parse_str_bytes acc cs = Inr (s, r) \<Longrightarrow> suffix r cs"
proof (induction acc cs rule: str_parse_str_bytes.induct)
  case (2 acc c cs)
  then show ?case
    by (fastforce split: if_splits sum.splits intro: suffix_ConsI suffix_Cons_trans
                  dest: parse_escape_suffix)
qed simp

lemma str_parse_str_bytes_length: "str_parse_str_bytes acc cs = Inr (s, r) \<Longrightarrow> length r < length cs"
proof (induction acc cs rule: str_parse_str_bytes.induct)
  case (2 acc c cs)
  then show ?case
    by (fastforce split: if_splits sum.splits dest: parse_escape_length)
qed simp

lemma read_str_suffix: "read_str rd cs = Inr (s, r) \<Longrightarrow> suffix r cs"
  by (cases rd) (auto simp: parse_str_def str_parse_str_def
                      dest: parse_str_bytes_suffix str_parse_str_bytes_suffix)

lemma read_str_length: "read_str rd cs = Inr (s, r) \<Longrightarrow> length r < length cs"
  by (cases rd) (auto simp: parse_str_def str_parse_str_def
                      dest: parse_str_bytes_length str_parse_str_bytes_length)

lemma ignore_str_suffix: "ignore_str cs = Inr r \<Longrightarrow> suffix r cs"
proof (induction cs rule: ignore_str.induct)
  case (2 c cs)
  then show ?case
    by (fastforce split: if_splits sum.splits intro: suffix_ConsI suffix_Cons_trans
                  dest: ignore_escape_suffix)
qed simp

lemma ignore_scalar_suffix: "ignore_scalar c r = Inr r' \<Longrightarrow> suffix r' r"
proof -
  assume a: "ignore_scalar c r = Inr r'"
  have "is_digit_byte c \<Longrightarrow> ignore_integer (c # r) = Inr r' \<Longrightarrow> suffix r' r"
    using ignore_integer_suffix [of "c # r" r'] ignore_integer_length [of "c # r" r']
    by (auto simp: suffix_Cons)
  with a show ?thesis
    by (auto simp: ignore_scalar_def split: if_splits
             dest: parse_ident_suffix ignore_integer_suffix ignore_str_suffix)
qed

text \<open>On a suffix of a valid UTF-8 text that follows a quote the two readers agree.\<close>

lemma read_str_agree:
  assumes "suffix (quote_char # r) cs0" and "utf8_valid cs0"
  shows "read_str Str_read r = read_str Slice_read r"
proof -
  obtain p where cs0: "cs0 = p @ quote_char # r" using assms(1) by (auto simp: suffix_def)
  have a: "of_char quote_char < (128::nat)" by simp
  have "utf8_valid (quote_char # r)" using utf8_valid_split_ascii [OF _ a] assms(2) cs0 by blast
  then have "utf8_valid r" by (simp add: Let_def)
  then show ?thesis by (simp add: str_parse_str_eq)
qed

text \<open>
  C32. The validating reader \<open>parse_str\<close> (used for keys and kept values) and the
  skipping reader \<open>ignore_str\<close> (used for skipped values) agree on where a string
  ends: whenever \<open>parse_str\<close> reads a string, \<open>ignore_str\<close> skips exactly the same bytes,
  surrogate pairs included.
\<close>

theorem parse_str_ignore_str: "parse_str cs = Inr (s, r) \<Longrightarrow> ignore_str cs = Inr r"
  by (simp add: parse_str_def parse_str_bytes_ignore_str)

lemma parse_str_ignore_str_witness:
  "parse_str ([backslash_char] @ ''uD83D'' @ [backslash_char] @ ''uDE00'' @ [quote_char] @ ''x'') =
     Inr (utf8_encode 0x1F600, ''x'') \<and>
   ignore_str ([backslash_char] @ ''uD83D'' @ [backslash_char] @ ''uDE00'' @ [quote_char] @ ''x'') =
     Inr ''x''"
proof -
  have p: "parse_str ([backslash_char] @ ''uD83D'' @ [backslash_char] @ ''uDE00'' @ [quote_char] @ ''x'') =
     Inr (utf8_encode 0x1F600, ''x'')"
    by (simp add: parse_str_def parse_escape_def parse_unicode_escape_def hex_val_def utf8_encode_def
                  utf8_cont_def utf8_second_ok_def)
  show ?thesis using p parse_str_ignore_str [OF p] by simp
qed

end
