(* ===== verification/Json_Skip.thy ===== *)
theory Json_Skip
  imports Json_String
begin

text \<open>
  \<open>Deserializer::ignore_value\<close>, the skipper of one JSON value that the derived visitor
  runs for every member whose key it does not know (\<open>IgnoredAny\<close>). It is a loop with
  an explicit stack, not a recursion, so JSON nested to any depth is skipped; the
  model is a \<open>function\<close> whose termination is proved on the length of the input.
\<close>

subsection \<open>Skipping a value\<close>

text \<open>
  \<open>Deserializer::ignore_value\<close> skips one value without recursion: the open brackets are
  kept on a stack (\<open>scratch\<close> with \<open>enclosing\<close> on top in the source, one list
  \<open>stk\<close> here, innermost first). The three modes are the three places of its loop: a
  value is expected (\<open>Ig_value\<close>), the inner loop after a value or an opening bracket,
  with \<open>accept_comma\<close> (\<open>Ig_close\<close>), and the key and colon an object member starts with
  (\<open>Ig_member\<close>). When the stack empties the value is complete and the rest is returned.
\<close>

datatype frame = Array_frame | Object_frame

datatype ignore_mode = Ig_value | Ig_close bool | Ig_member

fun mode_rank :: "ignore_mode \<Rightarrow> nat" where
  "mode_rank Ig_value = 0"
| "mode_rank Ig_member = 1"
| "mode_rank (Ig_close _) = 2"

definition closes :: "frame \<Rightarrow> char \<Rightarrow> bool" where
  "closes f c \<longleftrightarrow> (f = Array_frame \<and> c = CHR '']'') \<or> (f = Object_frame \<and> c = CHR ''}'')"

function ignore_loop :: "ignore_mode \<Rightarrow> frame list \<Rightarrow> string \<Rightarrow> json_error + string" where
  "ignore_loop Ig_value stk cs =
     (case skip_ws cs of
        [] \<Rightarrow> Inl Eof_while_parsing_value
      | c # r \<Rightarrow>
          if c = CHR ''['' then ignore_loop (Ig_close False) (Array_frame # stk) r
          else if c = CHR ''{'' then ignore_loop (Ig_close False) (Object_frame # stk) r
          else (case ignore_scalar c r of
                  Inl e \<Rightarrow> Inl e
                | Inr r' \<Rightarrow> ignore_loop (Ig_close True) stk r'))"
| "ignore_loop (Ig_close accept) [] cs = Inr cs"
| "ignore_loop (Ig_close accept) (f # stk) cs =
     (case skip_ws cs of
        [] \<Rightarrow> Inl (if f = Array_frame then Eof_while_parsing_list else Eof_while_parsing_object)
      | c # r \<Rightarrow>
          if c = CHR '','' \<and> accept then ignore_loop Ig_member (f # stk) r
          else if closes f c then ignore_loop (Ig_close True) stk r
          else if accept then
            Inl (if f = Array_frame then Expected_list_comma_or_end else Expected_object_comma_or_end)
          else ignore_loop Ig_member (f # stk) (c # r))"
| "ignore_loop Ig_member [] cs = Inr cs"
| "ignore_loop Ig_member (f # stk) cs =
     (if f = Array_frame then ignore_loop Ig_value (f # stk) cs
      else (case skip_ws cs of
              [] \<Rightarrow> Inl Eof_while_parsing_value
            | c # r \<Rightarrow>
                if c \<noteq> quote_char then Inl Key_must_be_a_string
                else (case ignore_str r of
                        Inl e \<Rightarrow> Inl e
                      | Inr r1 \<Rightarrow>
                          (case skip_ws r1 of
                             [] \<Rightarrow> Inl Eof_while_parsing_object
                           | d # r2 \<Rightarrow>
                               if d = CHR '':'' then ignore_loop Ig_value (f # stk) r2
                               else Inl Expected_colon))))"
  by pat_completeness auto
termination
proof (relation "measures [\<lambda>(m, stk, cs). length cs, \<lambda>(m, stk, cs). mode_rank m]")
  show "wf (measures [\<lambda>(m, stk, cs). length cs, \<lambda>(m, stk, cs). mode_rank m])" by simp
qed (auto dest!: skip_ws_Cons_length ignore_scalar_length ignore_str_length)

declare ignore_loop.simps [simp del]

definition ignore_value :: "string \<Rightarrow> json_error + string" where
  "ignore_value cs = ignore_loop Ig_value [] cs"

subsection \<open>Properties\<close>

lemma ignore_loop_suffix: "ignore_loop m stk cs = Inr r \<Longrightarrow> suffix r cs"
proof (induction m stk cs arbitrary: r rule: ignore_loop.induct)
  case (1 stk cs)
  obtain c r0 where sw: "skip_ws cs = c # r0"
    using "1.prems" by (cases "skip_ws cs") (auto simp: ignore_loop.simps(1))
  have lt: "suffix r0 cs" using sw by (rule skip_ws_Cons_suffix)
  have eq: "ignore_loop Ig_value stk cs =
              (if c = CHR ''['' then ignore_loop (Ig_close False) (Array_frame # stk) r0
               else if c = CHR ''{'' then ignore_loop (Ig_close False) (Object_frame # stk) r0
               else (case ignore_scalar c r0 of Inl e \<Rightarrow> Inl e
                     | Inr r' \<Rightarrow> ignore_loop (Ig_close True) stk r'))"
    by (simp only: ignore_loop.simps(1) sw list.case)
  consider (arr) "c = CHR ''[''" | (obj) "c \<noteq> CHR ''[''" "c = CHR ''{''"
    | (sc) "c \<noteq> CHR ''[''" "c \<noteq> CHR ''{''" by blast
  then show ?case
  proof cases
    case arr
    then show ?thesis using "1.IH"(1) [OF sw arr] "1.prems" eq lt by (metis suffix_order.order_trans)
  next
    case obj
    then show ?thesis using "1.IH"(2) [OF sw obj] "1.prems" eq lt by (metis suffix_order.order_trans)
  next
    case sc
    then obtain b where b: "ignore_scalar c r0 = Inr b"
      and l: "ignore_loop (Ig_close True) stk b = Inr r"
      using "1.prems" eq by (auto split: sum.splits)
    show ?thesis using "1.IH"(3) [OF sw sc b l] ignore_scalar_suffix [OF b] lt
      by (metis suffix_order.order_trans)
  qed
next
  case (3 accept f stk cs)
  obtain c r0 where sw: "skip_ws cs = c # r0"
    using "3.prems" by (cases "skip_ws cs") (auto simp: ignore_loop.simps(3))
  have lt: "suffix r0 cs" using sw by (rule skip_ws_Cons_suffix)
  have eq: "ignore_loop (Ig_close accept) (f # stk) cs =
              (if c = CHR '','' \<and> accept then ignore_loop Ig_member (f # stk) r0
               else if closes f c then ignore_loop (Ig_close True) stk r0
               else if accept then
                 Inl (if f = Array_frame then Expected_list_comma_or_end else Expected_object_comma_or_end)
               else ignore_loop Ig_member (f # stk) (c # r0))"
    by (simp only: ignore_loop.simps(3) sw list.case)
  show ?case
    using "3.IH"(1) [OF sw] "3.IH"(2) [OF sw] "3.IH"(3) [OF sw] "3.prems" eq lt
          skip_ws_suffix [of cs] sw
    by (auto split: if_splits intro: suffix_order.order_trans)
next
  case (5 f stk cs)
  show ?case
  proof (cases "f = Array_frame")
    case True
    then show ?thesis using "5.IH"(1) "5.prems" by (simp add: ignore_loop.simps(5))
  next
    case False
    then obtain q r0 where sw: "skip_ws cs = q # r0" and q: "q = quote_char"
      using "5.prems" by (cases "skip_ws cs") (auto simp: ignore_loop.simps(5) split: if_splits)
    obtain b where b: "ignore_str r0 = Inr b"
      using "5.prems" False sw q by (cases "ignore_str r0") (auto simp: ignore_loop.simps(5))
    obtain d r2 where sw2: "skip_ws b = d # r2" and d: "d = CHR '':''"
      using "5.prems" False sw q b by (cases "skip_ws b") (auto simp: ignore_loop.simps(5) split: if_splits)
    have l: "ignore_loop Ig_value (f # stk) r2 = Inr r"
      using "5.prems" False sw q b sw2 d by (simp add: ignore_loop.simps(5))
    have "suffix r2 cs"
      using skip_ws_Cons_suffix [OF sw] skip_ws_Cons_suffix [OF sw2] ignore_str_suffix [OF b]
      by (metis suffix_order.order_trans)
    then show ?thesis using "5.IH"(2) [OF False sw _ b sw2 d l] q by (metis suffix_order.order_trans)
  qed
qed (simp_all add: ignore_loop.simps(2,4))

lemma ignore_value_suffix: "ignore_value cs = Inr r \<Longrightarrow> suffix r cs"
  by (simp add: ignore_value_def ignore_loop_suffix)

lemma ignore_loop_length: "ignore_loop m stk cs = Inr r \<Longrightarrow> length r \<le> length cs"
  by (metis ignore_loop_suffix suffix_length_le)

lemma ignore_value_length: "ignore_value cs = Inr r \<Longrightarrow> length r \<le> length cs"
  by (simp add: ignore_value_def ignore_loop_length)


lemma nested_arrays:
  "ignore_loop (Ig_close False) (Array_frame # stk)
     (replicate n (CHR ''['') @ replicate (Suc n) (CHR '']'') @ rest) =
   ignore_loop (Ig_close True) stk rest"
proof (induction n arbitrary: stk rest)
  case 0
  show ?case by (simp add: ignore_loop.simps(3) is_ws_def closes_def)
next
  case (Suc n)
  let ?X = "replicate n (CHR ''['') @ replicate (Suc (Suc n)) (CHR '']'') @ rest"
  have x: "?X = replicate n (CHR ''['') @ replicate (Suc n) (CHR '']'') @ CHR '']'' # rest"
    by (simp add: replicate_app_Cons_same)
  have "ignore_loop (Ig_close False) (Array_frame # stk) (CHR ''['' # ?X) =
        ignore_loop Ig_member (Array_frame # stk) (CHR ''['' # ?X)"
    by (simp add: ignore_loop.simps(3) is_ws_def closes_def)
  also have "\<dots> = ignore_loop Ig_value (Array_frame # stk) (CHR ''['' # ?X)"
    by (simp add: ignore_loop.simps(5))
  also have "\<dots> = ignore_loop (Ig_close False) (Array_frame # Array_frame # stk) ?X"
    by (simp add: ignore_loop.simps(1) is_ws_def)
  also have "\<dots> = ignore_loop (Ig_close True) (Array_frame # stk) (CHR '']'' # rest)"
    unfolding x by (rule Suc.IH)
  also have "\<dots> = ignore_loop (Ig_close True) stk rest"
    by (simp add: ignore_loop.simps(3) is_ws_def closes_def)
  finally show ?case by simp
qed

text \<open>
  C30. \<open>ignore_value\<close> has no depth limit: it returns, and skips exactly the value, on
  arrays nested to any depth (the source keeps the open brackets on a heap stack,
  not on the call stack).
\<close>

theorem ignore_value_any_depth:
  "ignore_value (replicate (Suc n) (CHR ''['') @ replicate (Suc n) (CHR '']'') @ rest) = Inr rest"
  using nested_arrays [of "[]" n rest]
  by (simp add: ignore_value_def ignore_loop.simps(1,2) is_ws_def)

end
