(* ===== verification/Rfc3339.thy ===== *)
theory Rfc3339
  imports Auth_Types "HOL-Library.Monad_Syntax"
begin

text \<open>
  The calendar and the text form of \<open>expires_at: DateTime<Utc>\<close> (\<open>src/lib.rs\<close>
  line 88). The days-from-civil formula of the proleptic Gregorian calendar
  (\<open>days_from_civil\<close>, 1970-01-01 is day 0) is the reference day count that
  \<open>Chrono_Date\<close> proves \<open>chrono\<close>'s own count equal to. \<open>rfc3339_parse\<close> is the
  reference: the \<open>date-time\<close> production of RFC 3339 section 5.6 (\<open>T\<close> and \<open>Z\<close> in
  either case, as its note allows, an optional fraction of any length, an offset
  \<open>Z\<close> or \<open>+hh:mm\<close>/\<open>-hh:mm\<close>), with the ranges of section 5.7 (a day that exists in its
  month, hours below 24, minutes below 60, a second of 60 for a leap second). The
  instant it denotes is computed as \<open>chrono\<close> represents it: a leap second is second 59
  with a billion extra nanoseconds, and digits of the fraction beyond the ninth are
  dropped. \<open>Chrono_Parse\<close> models the parser the crate really runs and compares it with
  this reference.
\<close>

subsection \<open>Calendar\<close>

definition is_leap_year :: "int \<Rightarrow> bool" where
  "is_leap_year y \<longleftrightarrow> 4 dvd y \<and> (\<not> 100 dvd y \<or> 400 dvd y)"

definition days_in_month :: "int \<Rightarrow> nat \<Rightarrow> nat" where
  "days_in_month y m =
     (if m = 2 then (if is_leap_year y then 29 else 28)
      else if m \<in> {4, 6, 9, 11} then 30 else 31)"

text \<open>
  Days from 1970-01-01 to the given date: the year is shifted to start in March, so
  that the leap day is the last day of a shifted year, and split into 400-year eras of
  146097 days.
\<close>

definition days_from_civil :: "int \<Rightarrow> nat \<Rightarrow> nat \<Rightarrow> int" where
  "days_from_civil y m d =
     (let y' = (if m \<le> 2 then y - 1 else y);
          era = y' div 400;
          yoe = y' - era * 400;
          mp = (if 2 < m then int m - 3 else int m + 9);
          doy = (153 * mp + 2) div 5 + int d - 1;
          doe = yoe * 365 + yoe div 4 - yoe div 100 + doy
      in era * 146097 + doe - 719468)"

subsection \<open>Reading the text\<close>

definition take_digits :: "nat \<Rightarrow> string \<Rightarrow> (nat \<times> string) option" where
  "take_digits n cs =
     (let ds = take n cs in
      if length ds = n \<and> list_all is_digit ds
      then Some (foldl (\<lambda>acc c. 10 * acc + digit_val c) 0 ds, drop n cs) else None)"

definition literal :: "char list \<Rightarrow> string \<Rightarrow> string option" where
  "literal cs0 cs = (case cs of d # r \<Rightarrow> if d \<in> set cs0 then Some r else None | [] \<Rightarrow> None)"

text \<open>
  The optional fraction of a second: a point and at least one digit; the first nine
  digits are the nanoseconds, later ones are read and ignored.
\<close>

definition fraction :: "string \<Rightarrow> (nat \<times> string) option" where
  "fraction cs =
     (case cs of
        c # r \<Rightarrow>
          if c = CHR ''.'' then
            (let ds = takeWhile is_digit r; ds9 = take 9 ds in
             if ds = [] then None
             else Some (foldl (\<lambda>acc c. 10 * acc + digit_val c) 0 ds9 * 10 ^ (9 - length ds9),
                        dropWhile is_digit r))
          else Some (0, cs)
      | [] \<Rightarrow> Some (0, []))"

text \<open>The offset east of UTC in seconds: \<open>Z\<close> (or \<open>z\<close>), or a sign and \<open>hh:mm\<close>.\<close>

definition utc_offset :: "string \<Rightarrow> (int \<times> string) option" where
  "utc_offset cs =
     (case cs of
        c # r \<Rightarrow>
          if c = CHR ''Z'' \<or> c = CHR ''z'' then Some (0, r)
          else if c = CHR ''+'' \<or> c = CHR ''-'' then
            do { (hh, r1) \<leftarrow> take_digits 2 r;
                 r2 \<leftarrow> literal '':'' r1;
                 (mm, r3) \<leftarrow> take_digits 2 r2;
                 if hh < 24 \<and> mm < 60
                 then Some ((if c = CHR ''-'' then -1 else 1) * int (hh * 3600 + mm * 60), r3)
                 else None }
          else None
      | [] \<Rightarrow> None)"

definition valid_civil :: "nat \<Rightarrow> nat \<Rightarrow> nat \<Rightarrow> nat \<Rightarrow> nat \<Rightarrow> nat \<Rightarrow> bool" where
  "valid_civil y mo d h mi s \<longleftrightarrow>
     1 \<le> mo \<and> mo \<le> 12 \<and> 1 \<le> d \<and> d \<le> days_in_month (int y) mo \<and> h < 24 \<and> mi < 60 \<and> s \<le> 60"

text \<open>
  The UTC instant of a local date and time at an offset: a second of 60 is second 59
  with a billion extra nanoseconds, as \<open>chrono\<close> represents a leap second.
\<close>

definition civil_to_utc :: "nat \<Rightarrow> nat \<Rightarrow> nat \<Rightarrow> nat \<Rightarrow> nat \<Rightarrow> nat \<Rightarrow> nat \<Rightarrow> int \<Rightarrow> date_time_utc" where
  "civil_to_utc y mo d h mi s nano off =
     \<lparr>utc_timestamp = days_from_civil (int y) mo d * 86400 + int (h * 3600 + mi * 60 + min s 59) - off,
      utc_subsec_nanos = nano + (if s = 60 then 1000000000 else 0)\<rparr>"

text \<open>
  The date and the time of day: fixed-width numbers and separators (a separator item
  lists the bytes it accepts).
\<close>

datatype format_item = Num nat | Lit "char list"

fun parse_items :: "format_item list \<Rightarrow> string \<Rightarrow> (nat list \<times> string) option" where
  "parse_items [] cs = Some ([], cs)"
| "parse_items (Num n # items) cs =
     (case take_digits n cs of
        None \<Rightarrow> None
      | Some (v, r) \<Rightarrow> map_option (\<lambda>(vs, r'). (v # vs, r')) (parse_items items r))"
| "parse_items (Lit cs0 # items) cs =
     (case literal cs0 cs of None \<Rightarrow> None | Some r \<Rightarrow> parse_items items r)"

definition rfc3339_items :: "format_item list" where
  "rfc3339_items =
     [Num 4, Lit ''-'', Num 2, Lit ''-'', Num 2, Lit ''Tt'', Num 2, Lit '':'', Num 2, Lit '':'', Num 2]"

definition rfc3339_parse :: "string \<Rightarrow> date_time_utc option" where
  "rfc3339_parse cs =
     (case parse_items rfc3339_items cs of
        Some ([y, mo, d, h, mi, s], r) \<Rightarrow>
          (case fraction r of
             None \<Rightarrow> None
           | Some (nano, r2) \<Rightarrow>
               (case utc_offset r2 of
                  None \<Rightarrow> None
                | Some (off, r3) \<Rightarrow>
                    if r3 = [] \<and> valid_civil y mo d h mi s
                    then Some (civil_to_utc y mo d h mi s nano off) else None))
      | _ \<Rightarrow> None)"

text \<open>
  The first day after a valid date, and the days from 0000-03-01 to the March 1st that
  starts the shifted year \<open>Y\<close>: the two notions the properties of
  \<open>days_from_civil\<close> are stated with.
\<close>

definition next_day :: "int \<Rightarrow> nat \<Rightarrow> nat \<Rightarrow> int \<times> nat \<times> nat" where
  "next_day y m d =
     (if d < days_in_month y m then (y, m, Suc d) else if m < 12 then (y, Suc m, 1) else (y + 1, 1, 1))"

definition shifted_year_start :: "int \<Rightarrow> int" where
  "shifted_year_start Y = Y div 400 * 146097 + Y mod 400 * 365 + Y mod 400 div 4 - Y mod 400 div 100"

subsection \<open>Properties\<close>

lemmas rfc3339_defs = rfc3339_parse_def rfc3339_items_def take_digits_def literal_def fraction_def
  utc_offset_def valid_civil_def civil_to_utc_def days_from_civil_def is_digit_def digit_val_def
  days_in_month_def is_leap_year_def

subsection \<open>The calendar\<close>

lemma dvd_Suc_iff: "k dvd Suc a \<longleftrightarrow> Suc (a mod k) = k"
proof (cases "Suc (a mod k) = k")
  case True
  then have "Suc a mod k = 0" by (simp add: mod_Suc)
  then show ?thesis using True by (simp add: dvd_eq_mod_eq_0)
next
  case False
  then have "Suc a mod k = Suc (a mod k)" by (simp add: mod_Suc)
  then show ?thesis using False by (simp add: dvd_eq_mod_eq_0)
qed

lemma int_div_Suc:
  assumes "0 < k"
  shows "(1 + int a) div int k = int a div int k + (if k dvd Suc a then 1 else 0)"
proof -
  have "(1 + int a) div int k = int (Suc a div k)" by (simp add: zdiv_int)
  also have "\<dots> = int (a div k) + (if Suc (a mod k) = k then 1 else 0)"
    unfolding div_Suc using mod_Suc [of a k] by (auto split: if_splits)
  also have "(if Suc (a mod k) = k then 1 else 0) = (if k dvd Suc a then (1::int) else 0)"
    by (simp only: dvd_Suc_iff)
  also have "int (a div k) = int a div int k" by (simp add: zdiv_int)
  finally show ?thesis .
qed

lemma year_start_step_pos:
  assumes "s < 400" "0 < s"
  shows "shifted_year_start (400 * q + int s) =
           shifted_year_start (400 * q + int s - 1) + 365 + (if 4 dvd s \<and> \<not> 100 dvd s then 1 else 0)"
proof -
  obtain a where s: "s = Suc a" using assms(2) by (cases s) auto
  have a: "1 + int a < 400" "int a < 400" using assms s by simp_all
  have e1: "shifted_year_start (400 * q + int s) =
      q * 146097 + (1 + int a) * 365 + (1 + int a) div 4 - (1 + int a) div 100"
    using a by (simp add: shifted_year_start_def s)
  have e2: "shifted_year_start (400 * q + int s - 1) =
      q * 146097 + int a * 365 + int a div 4 - int a div 100"
    using a by (simp add: shifted_year_start_def s)
  have "100 dvd Suc a \<Longrightarrow> 4 dvd Suc a" by (rule dvd_trans [of 4 100]) simp_all
  then show ?thesis
    unfolding e1 e2
    using int_div_Suc [of 4 a] int_div_Suc [of 100 a] s by auto
qed

lemma year_start_step_zero:
  "shifted_year_start (400 * q) = shifted_year_start (400 * q - 1) + 366"
proof -
  have e: "400 * q - 1 = 399 + (q - 1) * 400" by simp
  have "(400 * q - 1) div 400 = q - 1"
    unfolding e by (simp only: div_mult_self1 zero_neq_numeral not_False_eq_True)
  moreover have "(400 * q - 1) mod 400 = 399"
    unfolding e by (simp only: mod_mult_self1 mod_mult_self2 mod_mult_self3 mod_mult_self4) simp
  ultimately show ?thesis by (simp add: shifted_year_start_def algebra_simps)
qed

lemma year_start_step:
  "shifted_year_start y = shifted_year_start (y - 1) + 365 + (if is_leap_year y then 1 else 0)"
proof -
  define q where "q = y div 400"
  define s where "s = nat (y mod 400)"
  have y: "y = 400 * q + int s" and s400: "s < 400" by (simp_all add: q_def s_def)
  have dv: "k dvd y \<longleftrightarrow> k dvd int s" if "k dvd 400" for k :: int
    using that unfolding y by (metis dvd_add_right_iff dvd_mult2)
  show ?thesis
  proof (cases "s = 0")
    case True
    then have "is_leap_year y" using dv by (simp add: is_leap_year_def)
    then show ?thesis using year_start_step_zero [of q] True y by simp
  next
    case False
    have "\<not> (400::int) dvd int s" using False s400 by (auto dest: zdvd_imp_le)
    moreover have "(4::int) dvd int s \<longleftrightarrow> 4 dvd s" "(100::int) dvd int s \<longleftrightarrow> 100 dvd s"
      using int_dvd_int_iff [of 4 s] int_dvd_int_iff [of 100 s] by simp_all
    ultimately have "is_leap_year y \<longleftrightarrow> 4 dvd s \<and> \<not> 100 dvd s"
      using dv [of 4] dv [of 100] dv [of 400] by (simp add: is_leap_year_def)
    then show ?thesis using year_start_step_pos [OF s400, of q] False y by simp
  qed
qed

lemma days_from_civil_shifted:
  "days_from_civil y m d =
     shifted_year_start (if m \<le> 2 then y - 1 else y) +
     (153 * (if 2 < m then int m - 3 else int m + 9) + 2) div 5 + int d - 1 - 719468"
  unfolding days_from_civil_def Let_def minus_div_mult_eq_mod shifted_year_start_def by simp

lemma month_cases:
  "1 \<le> m \<Longrightarrow> m \<le> (12::nat) \<Longrightarrow> m = 1 \<or> m = 2 \<or> m = 3 \<or> m = 4 \<or> m = 5 \<or> m = 6 \<or> m = 7 \<or>
     m = 8 \<or> m = 9 \<or> m = 10 \<or> m = 11 \<or> m = 12"
  by arith

lemma days_from_civil_epoch: "days_from_civil 1970 1 1 = 0"
  by (simp add: days_from_civil_def)

text \<open>
  The reference counts days: the next calendar day of a valid date is the next day
  number, across month and year ends, leap days and 400-year eras.
\<close>

lemma days_from_civil_next_day:
  assumes "1 \<le> m" and "m \<le> 12" and "1 \<le> d" and "d \<le> days_in_month y m"
  shows "(case next_day y m d of (y', m', d') \<Rightarrow> days_from_civil y' m' d') = days_from_civil y m d + 1"
proof (cases "d < days_in_month y m")
  case True
  then show ?thesis by (simp add: next_day_def days_from_civil_shifted)
next
  case False
  then have d: "d = days_in_month y m" using assms(4) by simp
  show ?thesis
    using month_cases [OF assms(1,2)] year_start_step [of y] d
    by (elim disjE) (simp_all add: next_day_def days_from_civil_shifted days_in_month_def)
qed

end
