(* ===== verification/Chrono_Date.thy ===== *)
theory Chrono_Date
  imports Rfc3339 "HOL-Library.Signed_Division"
begin

text \<open>
  The day count \<open>chrono\<close> computes timestamps with, as it is written there:
  \<open>Datelike::num_days_from_ce\<close> (days since 0001-01-01, which is day 1, with Rust's
  truncating \<open>/\<close> as \<open>sdiv\<close> and the flooring \<open>>>\<close> as \<open>div\<close>, and the shift into
  non-negative years for years before 1), the day of the year \<open>ordinal\<close>, and
  \<open>NaiveDateTime::timestamp\<close>, which subtracts the day number 719163 of 1970-01-01.
  The values stay far inside \<open>i32\<close>/\<open>i64\<close> for chrono's years
  (\<open>|year| < 2^18\<close>), so they are unbounded integers here. The lemmas show that this
  count agrees with the reference \<open>days_from_civil\<close> of \<open>Rfc3339\<close> on every valid date
  and hence counts calendar days, and they bound it on chrono's year range.
\<close>

definition ordinal :: "int \<Rightarrow> nat \<Rightarrow> nat \<Rightarrow> nat" where
  "ordinal y m d = sum_list (map (days_in_month y) [1..<m]) + d"

definition num_days_from_ce :: "int \<Rightarrow> nat \<Rightarrow> nat \<Rightarrow> int" where
  "num_days_from_ce y m d =
     (let year0 = y - 1;
          excess = (if year0 < 0 then 1 + (- year0) sdiv 400 else 0);
          year = year0 + excess * 400;
          div_100 = year sdiv 100
      in - excess * 146097 + ((year * 1461) div 4 - div_100 + div_100 div 4) + int (ordinal y m d))"

definition naive_timestamp :: "int \<Rightarrow> nat \<Rightarrow> nat \<Rightarrow> int \<Rightarrow> int" where
  "naive_timestamp y m d secs = (num_days_from_ce y m d - 719163) * 86400 + secs"

definition greg_days :: "int \<Rightarrow> int" where
  "greg_days y = 365 * y + y div 4 - y div 100 + y div 400"

lemma sdiv_nonneg: "0 \<le> k \<Longrightarrow> 0 < (l::int) \<Longrightarrow> k sdiv l = k div l"
  by (auto simp: signed_divide_int_eq_divide_int sgn_if)

lemma greg_days_shift: "greg_days (y + 400 * k) = greg_days y + 146097 * k"
proof -
  have "(y + 400 * k) div 4 = y div 4 + 100 * k"
       "(y + 400 * k) div 100 = y div 100 + 4 * k"
       "(y + 400 * k) div 400 = y div 400 + k"
    by simp_all
  then show ?thesis by (simp add: greg_days_def algebra_simps)
qed

lemma chrono_year_days:
  "0 \<le> Y \<Longrightarrow> (Y * 1461) div 4 - Y sdiv 100 + (Y sdiv 100) div 4 = greg_days Y"
proof -
  assume Y: "0 \<le> Y"
  have "(Y * 1461) div 4 = 365 * Y + Y div 4"
  proof -
    have "Y * 1461 = Y + (365 * Y) * 4" by simp
    then show ?thesis by simp
  qed
  moreover have "(Y div 100) div 4 = Y div 400" by (simp add: div_mult2_eq [symmetric])
  ultimately show ?thesis using Y by (simp add: sdiv_nonneg greg_days_def)
qed

lemma num_days_from_ce_greg: "num_days_from_ce y m d = greg_days (y - 1) + int (ordinal y m d)"
proof (cases "y - 1 < 0")
  case True
  define e where "e = 1 + (- (y - 1)) div 400"
  have e0: "0 \<le> y - 1 + e * 400"
  proof -
    define a where "a = - (y - 1)"
    have "a mod 400 < 400" "a = a div 400 * 400 + a mod 400" by simp_all
    then have "a < 400 + a div 400 * 400" by linarith
    then show ?thesis by (simp add: e_def a_def algebra_simps)
  qed
  have "(- (y - 1)) sdiv 400 = (- (y - 1)) div 400" using True by (simp add: sdiv_nonneg)
  then have "num_days_from_ce y m d = - e * 146097 + greg_days (y - 1 + e * 400) + int (ordinal y m d)"
    using True e0 chrono_year_days [OF e0] by (simp add: num_days_from_ce_def e_def Let_def)
  also have "greg_days (y - 1 + e * 400) = greg_days (y - 1) + 146097 * e"
    using greg_days_shift [of "y - 1" e] by (simp add: mult.commute)
  finally show ?thesis by simp
next
  case False
  then show ?thesis using chrono_year_days [of "y - 1"] by (simp add: num_days_from_ce_def Let_def)
qed


lemma div_pred: "0 < (k::int) \<Longrightarrow> (y - 1) div k = (if k dvd y then y div k - 1 else y div k)"
proof -
  assume k: "0 < k"
  have y: "y = k * (y div k) + y mod k" and r: "0 \<le> y mod k" "y mod k < k" using k by simp_all
  show ?thesis
  proof (cases "k dvd y")
    case True
    then have e: "y - 1 = k * (y div k - 1) + (k - 1)" using y by (simp add: algebra_simps)
    have "(y - 1) div k = y div k - 1" by (rule int_div_pos_eq [OF e]) (use k in simp_all)
    then show ?thesis using True by simp
  next
    case False
    then have "0 < y mod k" using r by (simp add: dvd_eq_mod_eq_0)
    then have e: "y - 1 = k * (y div k) + (y mod k - 1)" using y by simp
    have "(y - 1) div k = y div k" by (rule int_div_pos_eq [OF e]) (use r \<open>0 < y mod k\<close> in simp_all)
    then show ?thesis using False by simp
  qed
qed

lemma greg_days_step:
  "greg_days y = greg_days (y - 1) + 365 + (if is_leap_year y then 1 else 0)"
proof -
  have h1: "4 dvd y" if "100 dvd y" using that by (rule dvd_trans [rotated]) simp
  have h2: "100 dvd y" if "400 dvd y" using that by (rule dvd_trans [rotated]) simp
  show ?thesis
    using h1 h2 div_pred [of 4 y] div_pred [of 100 y] div_pred [of 400 y]
    by (auto simp: greg_days_def is_leap_year_def)
qed

lemma days_from_civil_era:
  assumes "y' = (if m \<le> 2 then y - 1 else y)" and "mp = (if 2 < m then int m - 3 else int m + 9)"
  shows "days_from_civil y m d =
           y' div 400 * 146097 + (y' mod 400 * 365 + y' mod 400 div 4 - y' mod 400 div 100 +
           ((153 * mp + 2) div 5 + int d - 1)) - 719468"
proof -
  have yo: "y' - y' div 400 * 400 = y' mod 400" by (rule minus_div_mult_eq_mod)
  have "days_from_civil y m d =
          y' div 400 * 146097 + ((y' - y' div 400 * 400) * 365 + (y' - y' div 400 * 400) div 4 -
          (y' - y' div 400 * 400) div 100 + ((153 * mp + 2) div 5 + int d - 1)) - 719468"
    unfolding days_from_civil_def Let_def assms by (rule refl)
  then show ?thesis by (simp only: yo)
qed

lemma days_from_civil_greg:
  assumes "y' = (if m \<le> 2 then y - 1 else y)" and "mp = (if 2 < m then int m - 3 else int m + 9)"
  shows "days_from_civil y m d = greg_days y' + ((153 * mp + 2) div 5 + int d - 1) - 719468"
proof -
  have "greg_days y' = greg_days (y' mod 400 + 400 * (y' div 400))" by simp
  also have "\<dots> = greg_days (y' mod 400) + 146097 * (y' div 400)" by (rule greg_days_shift)
  finally have g: "greg_days y' = 365 * (y' mod 400) + y' mod 400 div 4 - y' mod 400 div 100
                                 + 146097 * (y' div 400)"
    by (simp add: greg_days_def)
  show ?thesis unfolding days_from_civil_era [OF assms] using g by linarith
qed

lemma num_days_from_ce_civil:
  assumes "1 \<le> m" and "m \<le> 12"
  shows "num_days_from_ce y m d = days_from_civil y m d + 719163"
proof -
  show ?thesis
    using month_cases [OF assms]
    unfolding num_days_from_ce_greg days_from_civil_greg [OF refl refl]
    using greg_days_step [of y]
    by (elim disjE) (simp_all add: ordinal_def days_in_month_def upt_rec)
qed

lemma naive_timestamp_civil:
  "1 \<le> m \<Longrightarrow> m \<le> 12 \<Longrightarrow> naive_timestamp y m d secs = days_from_civil y m d * 86400 + secs"
  by (simp add: naive_timestamp_def num_days_from_ce_civil)

lemma ordinal_bounds:
  assumes "1 \<le> m" and "m \<le> 12" and "1 \<le> d" and "d \<le> days_in_month y m"
  shows "1 \<le> ordinal y m d \<and> ordinal y m d \<le> days_in_month y 2 + 337 \<and>
         (ordinal y m d = 1 \<longrightarrow> m = 1 \<and> d = 1) \<and>
         (ordinal y m d = days_in_month y 2 + 337 \<longrightarrow> m = 12 \<and> d = 31)"
  using month_cases [OF assms(1,2)] assms(3,4)
  by (elim disjE) (simp_all add: ordinal_def days_in_month_def upt_rec split: if_splits)

lemma greg_days_year: "greg_days y = greg_days (y - 1) + int (days_in_month y 2) + 337"
  using greg_days_step [of y] by (simp add: days_in_month_def)

lemma greg_days_mono: "a \<le> b \<Longrightarrow> greg_days a \<le> greg_days b"
proof (induction b rule: int_ge_induct)
  case (step i)
  then show ?case using greg_days_year [of "i + 1"] by simp
qed simp

lemma num_days_from_ce_inside:
  assumes "1 \<le> m" and "m \<le> 12" and "1 \<le> d" and "d \<le> days_in_month y m"
    and "lo \<le> y" and "y \<le> hi"
    and "\<not> (y = lo \<and> m = 1 \<and> d = 1)" and "\<not> (y = hi \<and> m = 12 \<and> d = 31)"
  shows "num_days_from_ce lo 1 1 < num_days_from_ce y m d \<and> num_days_from_ce y m d < num_days_from_ce hi 12 31"
proof -
  have o: "1 \<le> ordinal y m d \<and> ordinal y m d \<le> days_in_month y 2 + 337 \<and>
         (ordinal y m d = 1 \<longrightarrow> m = 1 \<and> d = 1) \<and>
         (ordinal y m d = days_in_month y 2 + 337 \<longrightarrow> m = 12 \<and> d = 31)"
    by (rule ordinal_bounds [OF assms(1-4)])
  have lo: "num_days_from_ce lo 1 1 = greg_days (lo - 1) + 1"
    by (simp add: num_days_from_ce_greg ordinal_def)
  have hi: "num_days_from_ce hi 12 31 = greg_days hi"
    using greg_days_year [of hi] by (simp add: num_days_from_ce_greg ordinal_def days_in_month_def upt_rec)
  have n: "num_days_from_ce y m d = greg_days (y - 1) + int (ordinal y m d)" by (rule num_days_from_ce_greg)
  have "greg_days (lo - 1) + 1 < greg_days (y - 1) + int (ordinal y m d)"
  proof (cases "y = lo")
    case True
    then show ?thesis using o assms(7) by auto
  next
    case False
    then have "greg_days lo \<le> greg_days (y - 1)" using assms(5) by (intro greg_days_mono) simp
    then show ?thesis using greg_days_year [of lo] o by simp
  qed
  moreover have "greg_days (y - 1) + int (ordinal y m d) < greg_days hi"
  proof (cases "y = hi")
    case True
    then show ?thesis using o assms(8) greg_days_year [of hi] by auto
  next
    case False
    then have "greg_days y \<le> greg_days (hi - 1)" using assms(6) by (intro greg_days_mono) simp
    then show ?thesis using greg_days_year [of hi] greg_days_year [of y] o by simp
  qed
  ultimately show ?thesis unfolding lo hi n by simp
qed

lemma next_day_valid:
  assumes "1 \<le> m" and "m \<le> 12" and "1 \<le> d" and "d \<le> days_in_month y m"
  shows "case next_day y m d of (y', m', d') \<Rightarrow> 1 \<le> m' \<and> m' \<le> 12"
  using assms by (simp add: next_day_def)

text \<open>
  C28. \<open>chrono\<close>'s day count, computed as \<open>num_days_from_ce\<close> does it (truncating
  division, the shift of years before 1 into positive years by whole 400-year eras),
  is the calendar's day number on every valid date, years before 1 included: less
  719163 it is the reference \<open>days_from_civil\<close>, the next calendar day (across month
  ends, year ends and leap days) has the next number, and 1970-01-01 is day 719163,
  the \<open>UNIX_EPOCH_DAY\<close> that \<open>NaiveDateTime::timestamp\<close> subtracts.
\<close>

theorem num_days_from_ce_counts_days:
  assumes "1 \<le> m" and "m \<le> 12" and "1 \<le> d" and "d \<le> days_in_month y m"
  shows "num_days_from_ce y m d - 719163 = days_from_civil y m d \<and>
         (case next_day y m d of (y', m', d') \<Rightarrow> num_days_from_ce y' m' d') = num_days_from_ce y m d + 1 \<and>
         num_days_from_ce 1970 1 1 = 719163"
proof -
  obtain y' m' d' where nd: "next_day y m d = (y', m', d')" by (cases "next_day y m d") blast
  then have "1 \<le> m'" "m' \<le> 12" using next_day_valid [OF assms] by simp_all
  then have "num_days_from_ce y' m' d' = days_from_civil y' m' d' + 719163" by (rule num_days_from_ce_civil)
  moreover have "days_from_civil y' m' d' = days_from_civil y m d + 1"
    using days_from_civil_next_day [OF assms] nd by simp
  moreover have "num_days_from_ce 1970 1 1 = 719163"
    using num_days_from_ce_civil [of 1 1970 1] days_from_civil_epoch by simp
  ultimately show ?thesis using num_days_from_ce_civil [OF assms(1,2)] nd by simp
qed

lemma num_days_from_ce_counts_days_witness:
  "1 \<le> (12::nat) \<and> (12::nat) \<le> 12 \<and> 1 \<le> (31::nat) \<and> 31 \<le> days_in_month (-100) 12 \<and>
   num_days_from_ce (-100) 12 31 - 719163 = days_from_civil (-100) 12 31 \<and>
   num_days_from_ce (-99) 1 1 = num_days_from_ce (-100) 12 31 + 1"
  using num_days_from_ce_counts_days [where y = "-100" and m = 12 and d = 31]
  by (simp add: days_in_month_def next_day_def)

end
