(* ===== verification/Chrono_Parse.thy ===== *)
theory Chrono_Parse
  imports Chrono_Date Json_Scan
begin

text \<open>
  What \<open>chrono\<close> (0.4.19, the release line whose \<open>Utc.ymd(..).and_hms(..)\<close> the unit
  test calls) runs for \<open>expires_at: DateTime<Utc>\<close> (\<open>src/lib.rs\<close> line 88): the
  \<open>Deserialize\<close> impl reads a JSON string, parses it with
  \<open>DateTime::<FixedOffset>::from_str\<close> and converts the result to UTC. \<open>from_str\<close> runs
  \<open>format::parse\<close> over a fixed list of format items, filling a \<open>Parsed\<close>, and then
  \<open>Parsed::to_datetime\<close>. The items skip Unicode whitespace between the fields, read
  one to four year digits or a signed year of any length, one or two digits for the
  other fields, accept \<open>z\<close> for \<open>Z\<close> and any run of colons and spaces inside the offset.
  The error is \<open>chrono\<close>'s \<open>ParseErrorKind\<close>; a panic of the library is the outcome
  \<open>Panics\<close>.
\<close>

datatype parse_error_kind =
    Out_of_range | Impossible | Not_enough | Invalid | Too_short | Too_long | Bad_format

text \<open>\<open>ParseError\<close>'s \<open>Display\<close>, the message \<open>serde\<close> reports.\<close>

fun parse_error_message :: "parse_error_kind \<Rightarrow> string" where
  "parse_error_message Out_of_range = ''input is out of range''"
| "parse_error_message Impossible = ''no possible date and time matching input''"
| "parse_error_message Not_enough = ''input is not enough for unique date and time''"
| "parse_error_message Invalid = ''input contains invalid characters''"
| "parse_error_message Too_short = ''premature end of input''"
| "parse_error_message Too_long = ''trailing input''"
| "parse_error_message Bad_format = ''bad or unsupported format string''"

datatype 'a chrono_result = Returns 'a | Parse_err parse_error_kind | Panics string

subsection \<open>Scanning\<close>

text \<open>
  The byte length of the Unicode whitespace character (\<open>char::is_whitespace\<close>) the
  text starts with, 0 if it starts with none: U+0009..U+000D, U+0020, U+0085, U+00A0,
  U+1680, U+2000..U+200A, U+2028, U+2029, U+202F, U+205F and U+3000 in UTF-8.
\<close>

definition ws_len :: "string \<Rightarrow> nat" where
  "ws_len s =
     (case s of
        [] \<Rightarrow> 0
      | a # r \<Rightarrow>
          (let x = (of_char a :: nat) in
           if (9 \<le> x \<and> x \<le> 13) \<or> x = 32 then 1
           else if x = 0xC2 then
             (case r of b # _ \<Rightarrow> if of_char b = (0x85::nat) \<or> of_char b = (0xA0::nat) then 2 else 0 | [] \<Rightarrow> 0)
           else if x = 0xE1 then
             (case r of b # c # _ \<Rightarrow> if of_char b = (0x9A::nat) \<and> of_char c = (0x80::nat) then 3 else 0
                      | _ \<Rightarrow> 0)
           else if x = 0xE2 then
             (case r of
                b # c # _ \<Rightarrow>
                  (let y = (of_char b :: nat); z = (of_char c :: nat) in
                   if (y = 0x80 \<and> ((0x80 \<le> z \<and> z \<le> 0x8A) \<or> z = 0xA8 \<or> z = 0xA9 \<or> z = 0xAF))
                      \<or> (y = 0x81 \<and> z = 0x9F) then 3 else 0)
              | _ \<Rightarrow> 0)
           else if x = 0xE3 then
             (case r of b # c # _ \<Rightarrow> if of_char b = (0x80::nat) \<and> of_char c = (0x80::nat) then 3 else 0
                      | _ \<Rightarrow> 0)
           else 0))"

text \<open>\<open>str::trim_left\<close>.\<close>

function trim_left :: "string \<Rightarrow> string" where
  "trim_left s = (if ws_len s = 0 then s else trim_left (drop (ws_len s) s))"
  by pat_completeness auto
termination
proof (relation "measure length")
  fix s :: string
  assume "ws_len s \<noteq> 0"
  moreover have "ws_len [] = 0" by (simp add: ws_len_def)
  ultimately show "(drop (ws_len s) s, s) \<in> measure length" by (cases s) auto
qed simp

declare trim_left.simps [simp del]

text \<open>
  \<open>scan::number(s, min, max)\<close>: at most \<open>max\<close> ASCII digits into an \<open>i64\<close> (an
  overflow is \<open>OUT_OF_RANGE\<close>); a non-digit before \<open>min\<close> digits is \<open>INVALID\<close>, fewer
  than \<open>min\<close> bytes \<open>TOO_SHORT\<close>. \<open>i\<close> counts the digits read, \<open>n\<close> is their value.
\<close>

definition i64_max :: int where
  "i64_max = 2 ^ 63 - 1"

fun number_digits :: "nat \<Rightarrow> nat \<Rightarrow> nat \<Rightarrow> int \<Rightarrow> string \<Rightarrow> parse_error_kind + (string \<times> int)" where
  "number_digits mn 0 i n s = Inr (s, n)"
| "number_digits mn (Suc k) i n [] = Inr ([], n)"
| "number_digits mn (Suc k) i n (c # s) =
     (if is_digit c then
        (let n' = n * 10 + int (digit_val c) in
         if i64_max < n' then Inl Out_of_range else number_digits mn k (Suc i) n' s)
      else if i < mn then Inl Invalid else Inr (c # s, n))"

definition scan_number :: "string \<Rightarrow> nat \<Rightarrow> nat \<Rightarrow> parse_error_kind + (string \<times> int)" where
  "scan_number s mn mx = (if length s < mn then Inl Too_short else number_digits mn mx 0 0 s)"

text \<open>
  A numeric item, after \<open>trim_left\<close>: a signed field (the year) with an explicit sign
  takes any number of digits (\<open>usize::MAX\<close>, here the length of the rest); otherwise at
  most \<open>width\<close> digits.
\<close>

definition scan_numeric :: "nat \<Rightarrow> bool \<Rightarrow> string \<Rightarrow> parse_error_kind + (string \<times> int)" where
  "scan_numeric width has_sign s0 =
     (let s = trim_left s0 in
      case s of
        c # r \<Rightarrow>
          if has_sign \<and> c = CHR ''-'' then
            (case scan_number r 1 (length r) of Inl e \<Rightarrow> Inl e | Inr (r', v) \<Rightarrow> Inr (r', - v))
          else if has_sign \<and> c = CHR ''+'' then scan_number r 1 (length r)
          else scan_number s 1 width
      | [] \<Rightarrow> scan_number s 1 width)"

text \<open>
  \<open>scan::nanosecond\<close>: one to nine digits scaled to nanoseconds; further digits are
  skipped.
\<close>

definition scan_nanosecond :: "string \<Rightarrow> parse_error_kind + (string \<times> int)" where
  "scan_nanosecond s =
     (case scan_number s 1 9 of
        Inl e \<Rightarrow> Inl e
      | Inr (r, v) \<Rightarrow> Inr (dropWhile is_digit r, v * 10 ^ (9 - (length s - length r))))"

text \<open>\<open>scan::colon_or_space\<close>: drops every leading colon and whitespace character.\<close>

function colon_or_space :: "string \<Rightarrow> string" where
  "colon_or_space s =
     (case s of
        [] \<Rightarrow> []
      | c # r \<Rightarrow> if c = CHR '':'' then colon_or_space r
                 else if ws_len s = 0 then s else colon_or_space (drop (ws_len s) s))"
  by pat_completeness auto
termination
proof (relation "measure length")
  fix s r :: string and c
  assume "s = c # r" and "ws_len s \<noteq> 0"
  then show "(drop (ws_len s) s, s) \<in> measure length" by simp
qed simp_all

declare colon_or_space.simps [simp del]

text \<open>
  \<open>scan::timezone_offset\<close> with \<open>colon_or_space\<close>: a sign, two hour digits, the
  separators, two minute digits (a first minute digit above 5 is \<open>OUT_OF_RANGE\<close>);
  the offset east of UTC in seconds.
\<close>

definition timezone_offset :: "string \<Rightarrow> parse_error_kind + (string \<times> int)" where
  "timezone_offset s =
     (case s of
        [] \<Rightarrow> Inl Too_short
      | c # r \<Rightarrow>
          if c \<noteq> CHR ''+'' \<and> c \<noteq> CHR ''-'' then Inl Invalid
          else
            (case r of
               h1 # h2 # r1 \<Rightarrow>
                 if is_digit h1 \<and> is_digit h2 then
                   (case colon_or_space r1 of
                      m1 # m2 # r3 \<Rightarrow>
                        if is_digit m1 \<and> is_digit m2 then
                          (if digit_val m1 \<le> 5 then
                             Inr (r3, (if c = CHR ''-'' then -1 else 1) *
                                      int ((digit_val h1 * 10 + digit_val h2) * 3600 +
                                           (digit_val m1 * 10 + digit_val m2) * 60))
                           else Inl Out_of_range)
                        else Inl Invalid
                    | _ \<Rightarrow> Inl Too_short)
                 else Inl Invalid
             | _ \<Rightarrow> Inl Too_short))"

text \<open>\<open>scan::timezone_offset_zulu\<close>: \<open>Z\<close> or \<open>z\<close> is offset 0.\<close>

definition timezone_offset_zulu :: "string \<Rightarrow> parse_error_kind + (string \<times> int)" where
  "timezone_offset_zulu s =
     (case s of
        c # r \<Rightarrow> if c = CHR ''Z'' \<or> c = CHR ''z'' then Inr (r, 0) else timezone_offset s
      | [] \<Rightarrow> timezone_offset s)"

subsection \<open>Parsed fields and the format items\<close>

text \<open>
  \<open>Parsed\<close>, restricted to the fields the items set. A setter stores a value once
  (\<open>set_if_consistent\<close>: a second, different value is \<open>IMPOSSIBLE\<close>) after converting it
  to the field's type (\<open>i32\<close> for year and offset, \<open>u32\<close> otherwise; a value that does
  not fit is \<open>OUT_OF_RANGE\<close>). The hour is kept whole: \<open>chrono\<close> stores it as
  \<open>hour_div_12\<close> and \<open>hour_mod_12\<close> and accepts it when \<open>hour_div_12\<close> is 0 or 1.
\<close>

record parsed =
  p_year :: "int option"
  p_month :: "int option"
  p_day :: "int option"
  p_hour :: "int option"
  p_minute :: "int option"
  p_second :: "int option"
  p_nanosecond :: "int option"
  p_offset :: "int option"

definition parsed_new :: parsed where
  "parsed_new =
     \<lparr>p_year = None, p_month = None, p_day = None, p_hour = None, p_minute = None,
      p_second = None, p_nanosecond = None, p_offset = None\<rparr>"

definition set_if_consistent :: "int option \<Rightarrow> int \<Rightarrow> parse_error_kind + int option" where
  "set_if_consistent old v =
     (case old of None \<Rightarrow> Inr (Some v) | Some w \<Rightarrow> if w = v then Inr (Some w) else Inl Impossible)"

definition fits_i32 :: "int \<Rightarrow> bool" where
  "fits_i32 v \<longleftrightarrow> - (2 ^ 31) \<le> v \<and> v < 2 ^ 31"

definition fits_u32 :: "int \<Rightarrow> bool" where
  "fits_u32 v \<longleftrightarrow> 0 \<le> v \<and> v < 2 ^ 32"

datatype numeric = Year | Month | Day | Hour | Minute | Second

datatype fixed = Nanosecond_fixed | Timezone_offset_z

datatype item = Literal string | Space | Numeric numeric | Fixed fixed

fun numeric_width :: "numeric \<Rightarrow> nat" where
  "numeric_width Year = 4" | "numeric_width _ = 2"

fun numeric_signed :: "numeric \<Rightarrow> bool" where
  "numeric_signed Year = True" | "numeric_signed _ = False"

text \<open>\<open>Parsed::set_year\<close>, \<open>set_month\<close>, ...: one setter per numeric field.\<close>

fun set_numeric :: "numeric \<Rightarrow> int \<Rightarrow> parsed \<Rightarrow> parse_error_kind + parsed" where
  "set_numeric Year v p =
     (if fits_i32 v then map_sum id (\<lambda>x. p\<lparr>p_year := x\<rparr>) (set_if_consistent (p_year p) v)
      else Inl Out_of_range)"
| "set_numeric Month v p =
     (if fits_u32 v then map_sum id (\<lambda>x. p\<lparr>p_month := x\<rparr>) (set_if_consistent (p_month p) v)
      else Inl Out_of_range)"
| "set_numeric Day v p =
     (if fits_u32 v then map_sum id (\<lambda>x. p\<lparr>p_day := x\<rparr>) (set_if_consistent (p_day p) v)
      else Inl Out_of_range)"
| "set_numeric Hour v p =
     (if fits_u32 v then map_sum id (\<lambda>x. p\<lparr>p_hour := x\<rparr>) (set_if_consistent (p_hour p) v)
      else Inl Out_of_range)"
| "set_numeric Minute v p =
     (if fits_u32 v then map_sum id (\<lambda>x. p\<lparr>p_minute := x\<rparr>) (set_if_consistent (p_minute p) v)
      else Inl Out_of_range)"
| "set_numeric Second v p =
     (if fits_u32 v then map_sum id (\<lambda>x. p\<lparr>p_second := x\<rparr>) (set_if_consistent (p_second p) v)
      else Inl Out_of_range)"

definition set_nanosecond :: "int \<Rightarrow> parsed \<Rightarrow> parse_error_kind + parsed" where
  "set_nanosecond v p =
     (if fits_u32 v then map_sum id (\<lambda>x. p\<lparr>p_nanosecond := x\<rparr>) (set_if_consistent (p_nanosecond p) v)
      else Inl Out_of_range)"

definition set_offset :: "int \<Rightarrow> parsed \<Rightarrow> parse_error_kind + parsed" where
  "set_offset v p =
     (if fits_i32 v then map_sum id (\<lambda>x. p\<lparr>p_offset := x\<rparr>) (set_if_consistent (p_offset p) v)
      else Inl Out_of_range)"

text \<open>
  \<open>format::parse\<close>: the items in order, then nothing may be left (\<open>TOO_LONG\<close>). A
  literal needs its bytes (\<open>TOO_SHORT\<close> if the text is shorter, \<open>INVALID\<close> if it
  differs); a space item trims whitespace; the fraction is read only after a point;
  the offset is read after trimming whitespace.
\<close>

fun parse_format :: "item list \<Rightarrow> parsed \<Rightarrow> string \<Rightarrow> parse_error_kind + parsed" where
  "parse_format [] p s = (if s = [] then Inr p else Inl Too_long)"
| "parse_format (Literal lit # its) p s =
     (if length s < length lit then Inl Too_short
      else if take (length lit) s = lit then parse_format its p (drop (length lit) s)
      else Inl Invalid)"
| "parse_format (Space # its) p s = parse_format its p (trim_left s)"
| "parse_format (Numeric n # its) p s =
     (case scan_numeric (numeric_width n) (numeric_signed n) s of
        Inl e \<Rightarrow> Inl e
      | Inr (r, v) \<Rightarrow> (case set_numeric n v p of Inl e \<Rightarrow> Inl e | Inr p' \<Rightarrow> parse_format its p' r))"
| "parse_format (Fixed Nanosecond_fixed # its) p s =
     (case s of
        c # r \<Rightarrow>
          if c = CHR ''.'' then
            (case scan_nanosecond r of
               Inl e \<Rightarrow> Inl e
             | Inr (r', v) \<Rightarrow> (case set_nanosecond v p of Inl e \<Rightarrow> Inl e | Inr p' \<Rightarrow> parse_format its p' r'))
          else parse_format its p s
      | [] \<Rightarrow> parse_format its p s)"
| "parse_format (Fixed Timezone_offset_z # its) p s =
     (case timezone_offset_zulu (trim_left s) of
        Inl e \<Rightarrow> Inl e
      | Inr (r, v) \<Rightarrow> (case set_offset v p of Inl e \<Rightarrow> Inl e | Inr p' \<Rightarrow> parse_format its p' r))"

text \<open>The items of \<open>impl FromStr for DateTime<FixedOffset>\<close>.\<close>

definition datetime_items :: "item list" where
  "datetime_items =
     [Numeric Year, Space, Literal ''-'', Numeric Month, Space, Literal ''-'', Numeric Day, Space,
      Literal ''T'', Numeric Hour, Space, Literal '':'', Numeric Minute, Space, Literal '':'',
      Numeric Second, Fixed Nanosecond_fixed, Space, Fixed Timezone_offset_z, Space]"

subsection \<open>From the fields to an instant\<close>

text \<open>
  \<open>chrono\<close>'s dates run from -262144-01-01 to +262143-12-31 (\<open>MIN_YEAR\<close>,
  \<open>MAX_YEAR\<close>).
\<close>

definition min_year :: int where "min_year = -262144"
definition max_year :: int where "max_year = 262143"

text \<open>
  \<open>NaiveDate::from_ymd_opt\<close> (a year in range, a month and a day of it),
  \<open>Parsed::to_naive_date\<close> (year, month and day through \<open>from_ymd_opt\<close>)
  and \<open>to_naive_time\<close> (a second of 60 is second 59 with a billion extra nanoseconds; a
  fraction needs a second).
\<close>

definition from_ymd_opt :: "int \<Rightarrow> int \<Rightarrow> int \<Rightarrow> (int \<times> nat \<times> nat) option" where
  "from_ymd_opt y m d =
     (if min_year \<le> y \<and> y \<le> max_year \<and> 1 \<le> m \<and> m \<le> 12 \<and> 1 \<le> d \<and>
         d \<le> int (days_in_month y (nat m))
      then Some (y, nat m, nat d) else None)"

definition to_naive_date :: "parsed \<Rightarrow> parse_error_kind + (int \<times> nat \<times> nat)" where
  "to_naive_date p =
     (case (p_year p, p_month p, p_day p) of
        (Some y, Some m, Some d) \<Rightarrow>
          (case from_ymd_opt y m d of Some dt \<Rightarrow> Inr dt | None \<Rightarrow> Inl Out_of_range)
      | _ \<Rightarrow> Inl Not_enough)"

definition to_naive_time :: "parsed \<Rightarrow> parse_error_kind + (nat \<times> nat \<times> nat \<times> nat)" where
  "to_naive_time p =
     (case p_hour p of
        None \<Rightarrow> Inl Not_enough
      | Some h \<Rightarrow>
          if 24 \<le> h then Inl Out_of_range
          else (case p_minute p of
                  None \<Rightarrow> Inl Not_enough
                | Some mi \<Rightarrow>
                    if 60 \<le> mi then Inl Out_of_range
                    else
                      (let s = (case p_second p of None \<Rightarrow> 0 | Some s \<Rightarrow> s) in
                       if 60 < s then Inl Out_of_range
                       else
                         (case p_nanosecond p of
                            None \<Rightarrow> Inr (nat h, nat mi, nat (min s 59), if s = 60 then 1000000000 else 0)
                          | Some n \<Rightarrow>
                              if 999999999 < n then Inl Out_of_range
                              else if p_second p = None then Inl Not_enough
                              else Inr (nat h, nat mi, nat (min s 59),
                                        nat n + (if s = 60 then 1000000000 else 0))))))"

text \<open>
  \<open>Parsed::to_datetime\<close>: the offset must be given and below one day
  (\<open>FixedOffset::east_opt\<close>); the date's error comes before the time's. The instant is
  the local time minus the offset, with the nanoseconds (a leap second included) kept;
  a result outside \<open>chrono\<close>'s dates, from the first second of its first day to
  the last second of its last day, makes \<open>NaiveDateTime + Duration\<close> panic. The
  seconds are counted as \<open>NaiveDateTime::timestamp\<close> counts them
  (\<open>naive_timestamp\<close>).
\<close>

definition naive_overflow_message :: string where
  "naive_overflow_message = ''`NaiveDateTime + Duration` overflowed''"

definition to_datetime :: "parsed \<Rightarrow> date_time_utc chrono_result" where
  "to_datetime p =
     (case p_offset p of
        None \<Rightarrow> Parse_err Not_enough
      | Some off \<Rightarrow>
          (case to_naive_date p of
             Inl e \<Rightarrow> Parse_err e
           | Inr (y, m, d) \<Rightarrow>
               (case to_naive_time p of
                  Inl e \<Rightarrow> Parse_err e
                | Inr (h, mi, s, nano) \<Rightarrow>
                    if \<not> (- 86400 < off \<and> off < 86400) then Parse_err Out_of_range
                    else
                      (let ts = naive_timestamp y m d (int (h * 3600 + mi * 60 + s)) - off in
                       if naive_timestamp min_year 1 1 0 \<le> ts \<and> ts < naive_timestamp max_year 12 31 86400
                       then Returns \<lparr>utc_timestamp = ts, utc_subsec_nanos = nano\<rparr>
                       else Panics naive_overflow_message))))"

text \<open>\<open>DateTime::<FixedOffset>::from_str\<close>, then \<open>with_timezone(&Utc)\<close>.\<close>

definition datetime_from_str :: "string \<Rightarrow> date_time_utc chrono_result" where
  "datetime_from_str s =
     (case parse_format datetime_items parsed_new s of
        Inl e \<Rightarrow> Parse_err e
      | Inr p \<Rightarrow> to_datetime p)"

subsection \<open>Building an instant in code\<close>

text \<open>
  \<open>Utc.ymd(y, m, d)\<close>: \<open>ymd_opt\<close> through \<open>NaiveDate::from_ymd_opt\<close>, then
  \<open>LocalResult::unwrap\<close>, which panics on a date that does not exist. \<open>Inl\<close> is the
  panic's message.
\<close>

definition utc_ymd :: "int \<Rightarrow> nat \<Rightarrow> nat \<Rightarrow> string + (int \<times> nat \<times> nat)" where
  "utc_ymd y m d =
     (case from_ymd_opt y (int m) (int d) of
        Some dt \<Rightarrow> Inr dt
      | None \<Rightarrow> Inl ''No such local time'')"

text \<open>
  \<open>Date<Utc>::and_hms(h, mi, s)\<close>: \<open>and_hms_opt(..).expect("invalid time")\<close>, where
  \<open>NaiveTime::from_hms_opt\<close> needs \<open>h < 24\<close>, \<open>mi < 60\<close> and \<open>s < 60\<close>; the
  offset of \<open>Utc\<close> is 0, so the local time is the instant.
\<close>

definition date_and_hms :: "int \<times> nat \<times> nat \<Rightarrow> nat \<Rightarrow> nat \<Rightarrow> nat \<Rightarrow> string + date_time_utc" where
  "date_and_hms dt h mi s =
     (case dt of
        (y, m, d) \<Rightarrow>
          if h < 24 \<and> mi < 60 \<and> s < 60
          then Inr \<lparr>utc_timestamp = naive_timestamp y m d (int (h * 3600 + mi * 60 + s)),
                    utc_subsec_nanos = 0\<rparr>
          else Inl ''invalid time'')"

subsection \<open>Evaluation\<close>

lemma trim_left_stop [simp]: "ws_len s = 0 \<Longrightarrow> trim_left s = s"
  by (simp add: trim_left.simps)

lemma trim_left_Nil [simp]: "trim_left [] = []"
  by (simp add: ws_len_def)

lemma trim_left_step: "ws_len s \<noteq> 0 \<Longrightarrow> trim_left s = trim_left (drop (ws_len s) s)"
  by (simp add: trim_left.simps)

lemma number_digits_numeral [simp]:
  "number_digits mn (numeral k) i n [] = Inr ([], n)"
  "number_digits mn (numeral k) i n (c # s) =
     (if is_digit c then
        (let n' = n * 10 + int (digit_val c) in
         if i64_max < n' then Inl Out_of_range else number_digits mn (pred_numeral k) (Suc i) n' s)
      else if i < mn then Inl Invalid else Inr (c # s, n))"
  by (subst numeral_eq_Suc, simp only: number_digits.simps)+

lemma i64_max_val [simp]: "i64_max = 9223372036854775807"
  by (simp add: i64_max_def)

text \<open>The reference day numbers of \<open>chrono\<close>'s first and last dates, computed once; \<open>naive_timestamp_civil\<close> brings \<open>to_datetime\<close>'s instants to them.\<close>

lemma chrono_date_range [simp]:
  "days_from_civil (-262144) (Suc 0) (Suc 0) = -96465658"
  "days_from_civil 262143 12 31 = 95026601"
  by (simp_all add: days_from_civil_def)

lemmas chrono_defs = datetime_from_str_def datetime_items_def parsed_new_def scan_numeric_def
  scan_number_def scan_nanosecond_def timezone_offset_zulu_def timezone_offset_def
  set_if_consistent_def fits_i32_def fits_u32_def set_nanosecond_def set_offset_def from_ymd_opt_def
  to_datetime_def to_naive_date_def to_naive_time_def ws_len_def is_digit_def digit_val_def
  days_in_month_def is_leap_year_def min_year_def max_year_def naive_timestamp_civil

subsection \<open>What a successful parse consumed\<close>

text \<open>
  Every scanner consumes a prefix that is valid UTF-8 (ASCII bytes, or whole
  whitespace characters), so a text that parses is valid UTF-8.
\<close>

abbreviation utf8_rest :: "string \<Rightarrow> string \<Rightarrow> bool" where
  "utf8_rest s r \<equiv> \<exists>p. s = p @ r \<and> utf8_valid p"

lemma utf8_rest_refl [simp]: "utf8_rest s s"
  by (rule exI [of _ "[]"]) simp

lemma utf8_rest_trans: "utf8_rest s r \<Longrightarrow> utf8_rest r r' \<Longrightarrow> utf8_rest s r'"
  by (metis append.assoc utf8_valid_append)

lemma utf8_rest_ascii: "of_char c < (128::nat) \<Longrightarrow> utf8_rest (c # s) s"
  by (rule exI [of _ "[c]"]) (simp add: Let_def)

lemma ws_prefix_utf8: "ws_len s \<noteq> 0 \<Longrightarrow> utf8_valid (take (ws_len s) s)"
proof (cases s)
  case (Cons a r)
  assume w: "ws_len s \<noteq> 0"
  show ?thesis
  proof (cases r)
    case Nil
    then show ?thesis using w Cons by (auto simp: ws_len_def Let_def split: if_splits)
  next
    case (Cons b r2)
    show ?thesis
    proof (cases r2)
      case Nil
      then show ?thesis using w \<open>s = a # r\<close> Cons
        by (auto simp: ws_len_def Let_def utf8_cont_def split: if_splits)
    next
      case (Cons c r3)
      then show ?thesis using w \<open>s = a # r\<close> \<open>r = b # r2\<close>
        by (auto simp: ws_len_def Let_def utf8_cont_def utf8_second_ok_def split: if_splits)
    qed
  qed
qed (simp add: ws_len_def)

lemma utf8_rest_ws: "ws_len s \<noteq> 0 \<Longrightarrow> utf8_rest s (drop (ws_len s) s)"
  using ws_prefix_utf8 by (metis append_take_drop_id)

lemma utf8_rest_trim_left: "utf8_rest s (trim_left s)"
proof (induction s rule: trim_left.induct)
  case (1 s)
  show ?case
  proof (cases "ws_len s = 0")
    case False
    then show ?thesis using "1" utf8_rest_ws [OF False] trim_left_step [OF False]
      by (metis utf8_rest_trans)
  qed simp
qed

lemma utf8_rest_valid: "utf8_rest s r \<Longrightarrow> utf8_valid r \<Longrightarrow> utf8_valid s"
  using utf8_valid_append by blast

lemma digit_ascii: "is_digit c \<Longrightarrow> of_char c < (128::nat)"
  by (simp add: is_digit_def)

lemma colon_or_space_colon [simp]: "colon_or_space (CHR '':'' # r) = colon_or_space r"
  by (simp add: colon_or_space.simps)

lemma colon_or_space_stop [simp]:
  "c \<noteq> CHR '':'' \<Longrightarrow> ws_len (c # r) = 0 \<Longrightarrow> colon_or_space (c # r) = c # r"
  by (simp add: colon_or_space.simps)

lemma colon_or_space_ws:
  "c \<noteq> CHR '':'' \<Longrightarrow> ws_len (c # r) \<noteq> 0 \<Longrightarrow>
   colon_or_space (c # r) = colon_or_space (drop (ws_len (c # r)) (c # r))"
  by (simp add: colon_or_space.simps)

lemma colon_or_space_Nil [simp]: "colon_or_space [] = []"
  by (simp add: colon_or_space.simps)

lemma utf8_rest_colon_or_space: "utf8_rest s (colon_or_space s)"
proof (induction s rule: colon_or_space.induct)
  case (1 s)
  show ?case
  proof (cases s)
    case (Cons c r)
    show ?thesis
    proof (cases "c = CHR '':''")
      case True
      have "utf8_rest r (colon_or_space r)" using "1" Cons True by simp
      moreover have "utf8_rest s r" using Cons True by (simp add: utf8_rest_ascii)
      ultimately show ?thesis using Cons True by (metis utf8_rest_trans colon_or_space_colon)
    next
      case False
      show ?thesis
      proof (cases "ws_len s = 0")
        case w: False
        have "utf8_rest (drop (ws_len s) s) (colon_or_space (drop (ws_len s) s))"
          using "1" Cons False w by simp
        then show ?thesis using Cons False w utf8_rest_ws [OF w] colon_or_space_ws [of c r]
          by (metis utf8_rest_trans)
      qed (use Cons False in simp)
    qed
  qed simp
qed

lemma utf8_rest_number_digits: "number_digits mn k i n s = Inr (r, v) \<Longrightarrow> utf8_rest s r"
proof (induction mn k i n s rule: number_digits.induct)
  case (3 mn k i n c s)
  show ?case
  proof (cases "is_digit c")
    case True
    have "utf8_rest s r" using "3.IH" True "3.prems" by (simp add: Let_def split: if_split_asm)
    then show ?thesis using utf8_rest_ascii [OF digit_ascii [OF True], of s] utf8_rest_trans by blast
  next
    case False
    then have "r = c # s" using "3.prems" by (simp split: if_split_asm)
    then show ?thesis by simp
  qed
next
  case (1 mn i n s)
  then show ?case by simp
next
  case (2 mn k i n)
  then show ?case by simp
qed

lemma utf8_rest_scan_number: "scan_number s mn mx = Inr (r, v) \<Longrightarrow> utf8_rest s r"
  by (auto simp: scan_number_def split: if_splits dest: utf8_rest_number_digits)

lemma utf8_rest_scan_numeric: "scan_numeric w b s = Inr (r, v) \<Longrightarrow> utf8_rest s r"
proof -
  assume a: "scan_numeric w b s = Inr (r, v)"
  have t: "utf8_rest s (trim_left s)" by (rule utf8_rest_trim_left)
  show ?thesis
  proof (cases "trim_left s")
    case Nil
    then show ?thesis using a t by (auto simp: scan_numeric_def dest: utf8_rest_scan_number)
  next
    case (Cons c x)
    have "utf8_rest (trim_left s) r"
    proof (cases "b \<and> (c = CHR ''-'' \<or> c = CHR ''+'')")
      case True
      then have "utf8_rest x r" using a Cons
        by (auto simp: scan_numeric_def split: sum.splits dest: utf8_rest_scan_number)
      moreover have "utf8_rest (c # x) x" using True by (auto intro: utf8_rest_ascii)
      ultimately show ?thesis using Cons utf8_rest_trans by metis
    next
      case False
      then show ?thesis using a Cons by (auto simp: scan_numeric_def dest: utf8_rest_scan_number)
    qed
    then show ?thesis using t utf8_rest_trans by metis
  qed
qed

lemma utf8_rest_dropWhile_digit: "utf8_rest s (dropWhile is_digit s)"
proof (induction s)
  case (Cons c s)
  show ?case
  proof (cases "is_digit c")
    case True
    then have "utf8_rest (c # s) s" by (intro utf8_rest_ascii digit_ascii)
    moreover have "dropWhile is_digit (c # s) = dropWhile is_digit s" using True by simp
    ultimately show ?thesis using Cons.IH utf8_rest_trans by metis
  qed simp
qed simp

lemma utf8_rest_scan_nanosecond: "scan_nanosecond s = Inr (r, v) \<Longrightarrow> utf8_rest s r"
  by (auto simp: scan_nanosecond_def split: sum.splits
           intro: utf8_rest_trans [OF utf8_rest_scan_number utf8_rest_dropWhile_digit])

lemma utf8_rest_ascii_list: "\<forall>c\<in>set xs. of_char c < (128::nat) \<Longrightarrow> utf8_rest (xs @ r) r"
  by (rule exI [of _ xs]) (simp add: utf8_valid_ascii)

lemma utf8_rest_timezone_offset: "timezone_offset s = Inr (r, v) \<Longrightarrow> utf8_rest s r"
proof -
  assume a: "timezone_offset s = Inr (r, v)"
  obtain c h1 h2 r1 m1 m2 where s: "s = c # h1 # h2 # r1" and c: "c = CHR ''+'' \<or> c = CHR ''-''"
      and h: "is_digit h1" "is_digit h2" and cs: "colon_or_space r1 = m1 # m2 # r"
      and m: "is_digit m1" "is_digit m2"
    using a by (auto simp: timezone_offset_def split: list.splits if_splits)
  have "utf8_rest s r1"
    using utf8_rest_ascii_list [of "[c, h1, h2]" r1] s c h by (auto simp: is_digit_def)
  moreover have "utf8_rest r1 (m1 # m2 # r)" using utf8_rest_colon_or_space [of r1] cs by simp
  moreover have "utf8_rest (m1 # m2 # r) r"
    using utf8_rest_ascii_list [of "[m1, m2]" r] m by (simp add: is_digit_def)
  ultimately show ?thesis using utf8_rest_trans by metis
qed

lemma utf8_rest_timezone_offset_zulu: "timezone_offset_zulu s = Inr (r, v) \<Longrightarrow> utf8_rest s r"
  by (cases s) (auto simp: timezone_offset_zulu_def split: if_splits
                     intro: utf8_rest_ascii dest: utf8_rest_timezone_offset)

lemma parse_format_utf8:
  "parse_format its p s = Inr p' \<Longrightarrow> \<forall>lit. Literal lit \<in> set its \<longrightarrow> utf8_valid lit \<Longrightarrow> utf8_valid s"
proof (induction its p s rule: parse_format.induct)
  case (2 lit its p s)
  then have "utf8_valid (drop (length lit) s)" and "take (length lit) s = lit"
    by (simp_all split: if_splits)
  then show ?case using "2.prems"(2) utf8_valid_append by (metis append_take_drop_id list.set_intros(1))
next
  case (3 its p s)
  have a: "parse_format its p (trim_left s) = Inr p'" using "3.prems"(1) by simp
  have "utf8_valid (trim_left s)" using "3.IH" [OF a] "3.prems"(2) by simp
  then show ?case by (rule utf8_rest_valid [OF utf8_rest_trim_left])
next
  case (4 n its p s)
  obtain r v p1 where sc: "scan_numeric (numeric_width n) (numeric_signed n) s = Inr (r, v)"
      and st: "set_numeric n v p = Inr p1" and pf: "parse_format its p1 r = Inr p'"
    using "4.prems"(1) by (auto split: sum.splits)
  have "utf8_valid r" using "4.IH" [OF sc refl st pf] "4.prems"(2) by simp
  then show ?case by (rule utf8_rest_valid [OF utf8_rest_scan_numeric [OF sc]])
next
  case (5 its p s)
  show ?case
  proof (cases "s \<noteq> [] \<and> hd s = CHR ''.''")
    case True
    then obtain r where s: "s = CHR ''.'' # r" by (cases s) auto
    obtain r' v p1 where sc: "scan_nanosecond r = Inr (r', v)" and st: "set_nanosecond v p = Inr p1"
        and pf: "parse_format its p1 r' = Inr p'"
      using "5.prems"(1) s by (auto split: sum.splits)
    have "utf8_valid r'" using "5.IH"(2) [OF s refl sc refl st pf] "5.prems"(2) by simp
    then have "utf8_valid r" by (rule utf8_rest_valid [OF utf8_rest_scan_nanosecond [OF sc]])
    then show ?thesis using s by (simp add: Let_def)
  next
    case False
    then show ?thesis using "5.IH"(1,3) "5.prems" by (cases s) auto
  qed
next
  case (6 its p s)
  obtain r v p1 where sc: "timezone_offset_zulu (trim_left s) = Inr (r, v)"
      and st: "set_offset v p = Inr p1" and pf: "parse_format its p1 r = Inr p'"
    using "6.prems"(1) by (auto split: sum.splits)
  have "utf8_valid r" using "6.IH" [OF sc refl st pf] "6.prems"(2) by simp
  then have "utf8_valid (trim_left s)" by (rule utf8_rest_valid [OF utf8_rest_timezone_offset_zulu [OF sc]])
  then show ?case by (rule utf8_rest_valid [OF utf8_rest_trim_left])
next
  case (1 p s)
  then have "s = []" by (simp split: if_split_asm)
  then show ?case by simp
qed

lemma datetime_from_str_utf8: "datetime_from_str s = Returns t \<Longrightarrow> utf8_valid s"
proof -
  assume a: "datetime_from_str s = Returns t"
  obtain p where "parse_format datetime_items parsed_new s = Inr p"
    using a by (cases "parse_format datetime_items parsed_new s") (auto simp: datetime_from_str_def)
  moreover have "\<forall>lit. Literal lit \<in> set datetime_items \<longrightarrow> utf8_valid lit"
    by (simp add: datetime_items_def Let_def)
  ultimately show ?thesis by (rule parse_format_utf8)
qed

subsection \<open>Agreement with the reference grammar\<close>

lemma take_digits_split:
  "take_digits n cs = Some (v, r) \<Longrightarrow>
   \<exists>ds. cs = ds @ r \<and> length ds = n \<and> list_all is_digit ds \<and>
        v = foldl (\<lambda>acc c. 10 * acc + digit_val c) 0 ds"
  by (auto simp: take_digits_def Let_def split: if_splits intro!: exI [of _ "take n cs"])

lemma foldl_digits_int:
  "int (foldl (\<lambda>acc c. 10 * acc + digit_val c) a ds) =
   foldl (\<lambda>a c. a * 10 + int (digit_val c)) (int a) ds"
  by (induction ds arbitrary: a) (simp_all add: algebra_simps)

lemma digit_val_less: "is_digit c \<Longrightarrow> digit_val c < 10"
  unfolding is_digit_def digit_val_def by linarith

lemma foldl_digits_less:
  "list_all is_digit ds \<Longrightarrow> foldl (\<lambda>acc c. 10 * acc + digit_val c) a ds < (a + 1) * 10 ^ length ds"
proof (induction ds arbitrary: a)
  case (Cons c ds)
  have "10 * a + digit_val c + 1 \<le> (a + 1) * 10" using digit_val_less [of c] Cons.prems by simp
  then have le: "(10 * a + digit_val c + 1) * 10 ^ length ds \<le> (a + 1) * 10 * 10 ^ length ds"
    by (rule mult_le_mono1)
  have "foldl (\<lambda>acc c. 10 * acc + digit_val c) (10 * a + digit_val c) ds
          < (10 * a + digit_val c + 1) * 10 ^ length ds"
    using Cons.IH Cons.prems by simp
  also note le
  also have "(a + 1) * 10 * 10 ^ length ds = (a + 1) * 10 ^ length (c # ds)" by (simp add: algebra_simps)
  finally show ?case by simp
qed simp

lemma foldl_int_mono:
  "0 \<le> n \<Longrightarrow> n \<le> foldl (\<lambda>a c. a * 10 + int (digit_val c)) n ds"
proof (induction ds arbitrary: n)
  case (Cons c ds)
  have "n \<le> n * 10 + int (digit_val c)" using Cons.prems by simp
  then show ?case using Cons.IH [of "n * 10 + int (digit_val c)"] Cons.prems by simp
qed simp

lemma number_digits_run:
  assumes "list_all is_digit ds" and "length ds < m \<longrightarrow> r = [] \<or> \<not> is_digit (hd r)"
    and "mn \<le> i + min m (length ds)" and "0 \<le> n"
    and "foldl (\<lambda>a c. a * 10 + int (digit_val c)) n (take m ds) \<le> i64_max"
  shows "number_digits mn m i n (ds @ r) =
           Inr (drop m ds @ r, foldl (\<lambda>a c. a * 10 + int (digit_val c)) n (take m ds))"
  using assms
proof (induction ds arbitrary: m i n)
  case Nil
  then show ?case by (cases m; cases r) auto
next
  case (Cons c ds)
  show ?case
  proof (cases m)
    case (Suc k)
    let ?n = "n * 10 + int (digit_val c)"
    have le: "?n \<le> foldl (\<lambda>a c. a * 10 + int (digit_val c)) ?n (take k ds)"
      using Cons.prems(4) by (intro foldl_int_mono) simp
    have "number_digits mn k (Suc i) ?n (ds @ r) =
            Inr (drop k ds @ r, foldl (\<lambda>a c. a * 10 + int (digit_val c)) ?n (take k ds))"
      using Cons.prems Suc by (intro Cons.IH) auto
    then show ?thesis using Cons.prems le Suc by (simp add: Let_def)
  qed simp
qed

lemma ws_len_digit: "is_digit c \<Longrightarrow> ws_len (c # s) = 0"
  by (simp add: ws_len_def is_digit_def Let_def)

lemma scan_numeric_take_digits:
  assumes "take_digits n cs = Some (v, r)" and "0 < n" and "n \<le> 9"
  shows "scan_numeric n b cs = Inr (r, int v)"
proof -
  obtain ds where cs: "cs = ds @ r" and l: "length ds = n" and d: "list_all is_digit ds"
      and v: "v = foldl (\<lambda>acc c. 10 * acc + digit_val c) 0 ds"
    using take_digits_split [OF assms(1)] by blast
  obtain c ds' where ds: "ds = c # ds'" using l assms(2) by (cases ds) auto
  have c: "is_digit c" using d ds by simp
  have "v < 10 ^ n" using foldl_digits_less [OF d, of 0] v l by simp
  also have "(10::nat) ^ n \<le> 10 ^ 9" using assms(3) by (intro power_increasing) simp_all
  finally have "int v \<le> i64_max" by simp
  then have "number_digits 1 n 0 0 cs = Inr (r, int v)"
    using number_digits_run [OF d, of n r 1 0 0] cs l v assms(2) foldl_digits_int [of 0 ds] by simp
  moreover have "c \<noteq> CHR ''-'' \<and> c \<noteq> CHR ''+''" using c by (auto simp: is_digit_def)
  ultimately show ?thesis
    using cs ds ws_len_digit [OF c] by (simp add: scan_numeric_def scan_number_def)
qed

lemma dropWhile_digits_append:
  "list_all is_digit xs \<Longrightarrow> dropWhile is_digit (xs @ r) = dropWhile is_digit r"
  by (induction xs) auto

lemma fraction_scan_nanosecond:
  assumes "fraction (CHR ''.'' # x) = Some (nano, r2)"
  shows "scan_nanosecond x = Inr (r2, int nano)"
proof -
  define ds where "ds = takeWhile is_digit x"
  define rest where "rest = dropWhile is_digit x"
  have x: "x = ds @ rest" by (simp add: ds_def rest_def)
  have d: "list_all is_digit ds" by (auto simp: ds_def list_all_iff dest: set_takeWhileD)
  have ne: "ds \<noteq> []" and nano: "nano = foldl (\<lambda>acc c. 10 * acc + digit_val c) 0 (take 9 ds) *
                                         10 ^ (9 - length (take 9 ds))"
      and r2: "r2 = rest"
    using assms by (auto simp: fraction_def Let_def ds_def rest_def split: if_splits)
  have hd: "rest = [] \<or> \<not> is_digit (hd rest)"
    unfolding rest_def by (metis hd_dropWhile)
  have dt: "list_all is_digit (take 9 ds)" using d by (auto simp: list_all_iff dest: in_set_takeD)
  have "foldl (\<lambda>acc c. 10 * acc + digit_val c) 0 (take 9 ds) < 10 ^ length (take 9 ds)"
    using foldl_digits_less [OF dt, of 0] by simp
  also have "(10::nat) ^ length (take 9 ds) \<le> 10 ^ 9" by (intro power_increasing) simp_all
  finally have b: "int (foldl (\<lambda>acc c. 10 * acc + digit_val c) 0 (take 9 ds)) \<le> i64_max" by simp
  have run: "number_digits 1 9 0 0 x =
               Inr (drop 9 ds @ rest, int (foldl (\<lambda>acc c. 10 * acc + digit_val c) 0 (take 9 ds)))"
    using number_digits_run [OF d, of 9 rest 1 0 0] hd ne b foldl_digits_int [of 0 "take 9 ds"] x
    by (simp add: Suc_le_eq)
  have dd: "list_all is_digit (drop 9 ds)" using d by (auto simp: list_all_iff dest: in_set_dropD)
  have "dropWhile is_digit rest = rest" using hd by (cases rest) auto
  then have "dropWhile is_digit (drop 9 ds @ rest) = rest"
    using dropWhile_digits_append [OF dd, of rest] by simp
  moreover have "length x - length (drop 9 ds @ rest) = length (take 9 ds)" using x by simp
  moreover have "x \<noteq> []" using x ne by simp
  ultimately show ?thesis
    using run nano r2 by (simp add: scan_nanosecond_def scan_number_def)
qed

lemma take_digits_2:
  assumes "take_digits 2 cs = Some (v, r)"
  shows "\<exists>a b. cs = a # b # r \<and> is_digit a \<and> is_digit b \<and> v = digit_val a * 10 + digit_val b"
proof -
  obtain ds where "cs = ds @ r" "length ds = 2" "list_all is_digit ds"
      "v = foldl (\<lambda>acc c. 10 * acc + digit_val c) 0 ds"
    using take_digits_split [OF assms] by blast
  moreover obtain a b where "ds = [a, b]"
    using \<open>length ds = 2\<close> by (cases ds; cases "tl ds") (auto simp: numeral_2_eq_2)
  ultimately show ?thesis by auto
qed

lemma utc_offset_zulu:
  assumes "utc_offset r2 = Some (off, [])"
  shows "timezone_offset_zulu r2 = Inr ([], off) \<and> ws_len r2 = 0 \<and> - 86400 < off \<and> off < 86400"
proof -
  obtain c r where r2: "r2 = c # r" using assms by (cases r2) (auto simp: utc_offset_def)
  show ?thesis
  proof (cases "c = CHR ''Z'' \<or> c = CHR ''z''")
    case True
    then show ?thesis using assms r2
      by (auto simp: utc_offset_def timezone_offset_zulu_def ws_len_def)
  next
    case False
    then have sg: "c = CHR ''+'' \<or> c = CHR ''-''" using assms r2 by (auto simp: utc_offset_def split: if_splits)
    obtain hh r1 r2' mm where h: "take_digits 2 r = Some (hh, r1)" and l: "literal '':'' r1 = Some r2'"
        and m: "take_digits 2 r2' = Some (mm, [])" and hm: "hh < 24" "mm < 60"
        and off: "off = (if c = CHR ''-'' then -1 else 1) * int (hh * 3600 + mm * 60)"
      using assms r2 False sg
      by (auto simp: utc_offset_def bind_eq_Some_conv split: if_splits prod.splits)
    obtain h1 h2 where r: "r = h1 # h2 # r1" "is_digit h1" "is_digit h2" "hh = digit_val h1 * 10 + digit_val h2"
      using take_digits_2 [OF h] by blast
    obtain m1 m2 where r2': "r2' = [m1, m2]" "is_digit m1" "is_digit m2" "mm = digit_val m1 * 10 + digit_val m2"
      using take_digits_2 [OF m] by blast
    have r1: "r1 = CHR '':'' # r2'" using l by (auto simp: literal_def split: list.splits if_splits)
    have "m1 \<noteq> CHR '':''" using r2'(2) by (auto simp: is_digit_def)
    then have "colon_or_space r1 = [m1, m2]"
      using r1 r2' ws_len_digit [of m1 "[m2]"] by simp
    moreover have "digit_val m1 \<le> 5" using hm(2) r2'(4) by simp
    ultimately have "timezone_offset r2 = Inr ([], off)"
      using r2 r r2' sg off by (auto simp: timezone_offset_def)
    moreover have "\<bar>off\<bar> < 86400" using off hm by auto
    ultimately show ?thesis using r2 sg False
      by (auto simp: timezone_offset_zulu_def ws_len_def)
  qed
qed

lemma to_naive_date_Inr:
  assumes "to_naive_date p = Inr (y, m, d)"
  shows "p_year p = Some y \<and> p_month p = Some (int m) \<and> p_day p = Some (int d) \<and>
         1 \<le> m \<and> m \<le> 12 \<and> 1 \<le> d \<and> d \<le> days_in_month y m \<and> min_year \<le> y \<and> y \<le> max_year"
  using assms
  by (auto simp: to_naive_date_def from_ymd_opt_def split: option.splits if_splits)

lemma to_naive_time_Inr:
  "to_naive_time p = Inr (h, mi, s, nano) \<Longrightarrow> h < 24 \<and> mi < 60 \<and> s < 60"
  by (auto simp: to_naive_time_def Let_def split: option.splits if_splits)

lemma naive_timestamp_inside:
  assumes "1 \<le> m" and "m \<le> 12" and "1 \<le> d" and "d \<le> days_in_month y m"
    and "min_year \<le> y" and "y \<le> max_year"
    and "\<not> (y = min_year \<and> m = 1 \<and> d = 1)" and "\<not> (y = max_year \<and> m = 12 \<and> d = 31)"
    and "0 \<le> t" and "t < 86400" and "- 86400 < off" and "off < 86400"
  shows "naive_timestamp min_year 1 1 0 \<le> naive_timestamp y m d t - off \<and>
         naive_timestamp y m d t - off < naive_timestamp max_year 12 31 86400"
proof -
  have "num_days_from_ce min_year 1 1 + 1 \<le> num_days_from_ce y m d"
       "num_days_from_ce y m d + 1 \<le> num_days_from_ce max_year 12 31"
    using num_days_from_ce_inside [OF assms(1-8)] by simp_all
  then show ?thesis using assms(9-12) unfolding naive_timestamp_def left_diff_distrib by (intro conjI) linarith+
qed

lemma to_datetime_civil:
  assumes "valid_civil y mo d h mi sec" and "y \<le> 9999" and "nano < 1000000000"
    and "- 86400 < off" and "off < 86400"
    and "nopt = None \<and> nano = 0 \<or> nopt = Some (int nano)"
  shows "to_datetime \<lparr>p_year = Some (int y), p_month = Some (int mo), p_day = Some (int d),
            p_hour = Some (int h), p_minute = Some (int mi), p_second = Some (int sec),
            p_nanosecond = nopt, p_offset = Some off\<rparr> = Returns (civil_to_utc y mo d h mi sec nano off)"
proof -
  have v: "1 \<le> mo" "mo \<le> 12" "1 \<le> d" "d \<le> days_in_month (int y) mo" "h < 24" "mi < 60" "sec \<le> 60"
    using assms(1) by (simp_all add: valid_civil_def)
  have y: "min_year \<le> int y" "int y \<le> max_year" "int y \<noteq> min_year" "int y \<noteq> max_year"
    using assms(2) by (simp_all add: min_year_def max_year_def)
  have t: "int (h * 3600 + mi * 60 + min sec 59) < 86400" using v by simp
  have range:
    "naive_timestamp min_year 1 1 0 \<le> naive_timestamp (int y) mo d (int (h * 3600 + mi * 60 + min sec 59)) - off \<and>
     naive_timestamp (int y) mo d (int (h * 3600 + mi * 60 + min sec 59)) - off < naive_timestamp max_year 12 31 86400"
    using y t assms(4,5) by (intro naive_timestamp_inside v(1-4)) simp_all
  show ?thesis
    using assms(2-6) v y range
    by (auto simp: to_datetime_def to_naive_date_def from_ymd_opt_def to_naive_time_def civil_to_utc_def
                   naive_timestamp_civil [OF v(1,2)] nat_mult_distrib nat_add_distrib min_def)
qed

lemma fraction_less: "fraction r = Some (nano, r2) \<Longrightarrow> nano < 1000000000"
proof -
  assume f: "fraction r = Some (nano, r2)"
  show ?thesis
  proof (cases "r \<noteq> [] \<and> hd r = CHR ''.''")
    case True
    then obtain x where r: "r = CHR ''.'' # x" by (cases r) auto
    define ds where "ds = take 9 (takeWhile is_digit x)"
    have d: "list_all is_digit ds" by (auto simp: ds_def list_all_iff dest: in_set_takeD set_takeWhileD)
    have l: "length ds \<le> 9" by (simp add: ds_def)
    have n: "nano = foldl (\<lambda>acc c. 10 * acc + digit_val c) 0 ds * 10 ^ (9 - length ds)"
      using f r by (auto simp: fraction_def Let_def ds_def split: if_splits)
    have "foldl (\<lambda>acc c. 10 * acc + digit_val c) 0 ds * 10 ^ (9 - length ds) < 10 ^ length ds * 10 ^ (9 - length ds)"
      using foldl_digits_less [OF d, of 0] by simp
    also have "(10::nat) ^ length ds * 10 ^ (9 - length ds) = 10 ^ 9"
      using l by (simp add: power_add [symmetric])
    finally show ?thesis using n by simp
  next
    case False
    then show ?thesis using f by (cases r) (auto simp: fraction_def)
  qed
qed

lemma fraction_no_point:
  "fraction r = Some (nano, r2) \<Longrightarrow> \<not> (r \<noteq> [] \<and> hd r = CHR ''.'') \<Longrightarrow> nano = 0 \<and> r2 = r"
  by (cases r) (auto simp: fraction_def)

lemma parse_items_Num_Some:
  "parse_items (Num n # its) cs = Some (vs, r) \<longleftrightarrow>
   (\<exists>v r1 vs'. take_digits n cs = Some (v, r1) \<and> parse_items its r1 = Some (vs', r) \<and> vs = v # vs')"
  by (auto split: option.splits)

lemma parse_items_Lit_Some:
  "parse_items (Lit cs0 # its) cs = Some (vs, r) \<longleftrightarrow>
   (\<exists>c r1. cs = c # r1 \<and> c \<in> set cs0 \<and> parse_items its r1 = Some (vs, r))"
  by (auto simp: literal_def split: list.splits option.splits)

lemma take_digits_set: "take_digits n cs = Some (v, r) \<Longrightarrow> set r \<subseteq> set cs"
  by (auto simp: take_digits_def Let_def split: if_splits dest: in_set_dropD)

lemma take_digits_less: "take_digits n cs = Some (v, r) \<Longrightarrow> v < 10 ^ n"
  using take_digits_split [of n cs v r] foldl_digits_less [of _ 0] by fastforce

lemma rfc3339_parse_Some:
  assumes "rfc3339_parse s = Some t"
  obtains y mo d h mi sec r nano r2 off s1 s2 s3 s4 s5 s6 tc where
    "take_digits 4 s = Some (y, CHR ''-'' # s1)" "take_digits 2 s1 = Some (mo, CHR ''-'' # s2)"
    "take_digits 2 s2 = Some (d, tc # s3)" "tc = CHR ''T'' \<or> tc = CHR ''t''"
    "take_digits 2 s3 = Some (h, CHR '':'' # s4)" "take_digits 2 s4 = Some (mi, CHR '':'' # s5)"
    "take_digits 2 s5 = Some (sec, r)" "fraction r = Some (nano, r2)" "utc_offset r2 = Some (off, [])"
    "valid_civil y mo d h mi sec" "t = civil_to_utc y mo d h mi sec nano off"
proof -
  obtain vs r where p: "parse_items rfc3339_items s = Some (vs, r)"
    using assms by (auto simp: rfc3339_parse_def split: option.splits)
  obtain y mo d h mi sec where vs: "vs = [y, mo, d, h, mi, sec]"
    using assms p by (auto simp: rfc3339_parse_def split: list.splits)
  obtain nano r2 off where f: "fraction r = Some (nano, r2)" and u: "utc_offset r2 = Some (off, [])"
      and v: "valid_civil y mo d h mi sec" and t: "t = civil_to_utc y mo d h mi sec nano off"
    using assms p vs by (auto simp: rfc3339_parse_def split: option.splits if_splits prod.splits)
  show ?thesis
    using p vs f u v t that
    by (simp only: rfc3339_items_def parse_items_Num_Some parse_items_Lit_Some)
       (auto simp del: parse_items.simps(2,3))
qed

lemma parse_format_no_point:
  "\<not> (r \<noteq> [] \<and> hd r = CHR ''.'') \<Longrightarrow>
   parse_format (Fixed Nanosecond_fixed # its) p r = parse_format its p r"
  by (cases r) auto

lemma ws_len_ascii_sep:
  "c \<in> {CHR ''-'', CHR '':'', CHR ''T'', CHR ''.''} \<Longrightarrow> ws_len (c # r) = 0"
  by (auto simp: ws_len_def)

lemma parse_format_fraction_offset:
  assumes f: "fraction r = Some (nano, r2)" and u: "utc_offset r2 = Some (off, [])"
    and "p_nanosecond p = None" and "p_offset p = None"
  shows "\<exists>nopt. parse_format [Fixed Nanosecond_fixed, Space, Fixed Timezone_offset_z, Space] p r =
           Inr (p\<lparr>p_nanosecond := nopt, p_offset := Some off\<rparr>) \<and>
         (nopt = None \<and> nano = 0 \<or> nopt = Some (int nano))"
proof -
  have z: "timezone_offset_zulu r2 = Inr ([], off)" "ws_len r2 = 0" "- 86400 < off" "off < 86400"
    using utc_offset_zulu [OF u] by simp_all
  show ?thesis
  proof (cases "r \<noteq> [] \<and> hd r = CHR ''.''")
    case True
    then obtain x where r: "r = CHR ''.'' # x" by (cases r) auto
    have "scan_nanosecond x = Inr (r2, int nano)" using f r by (simp add: fraction_scan_nanosecond)
    then show ?thesis
      using r z fraction_less [OF f] assms(3,4)
      by (intro exI [of _ "Some (int nano)"])
         (simp add: set_nanosecond_def set_offset_def set_if_consistent_def fits_u32_def fits_i32_def)
  next
    case False
    then have "nano = 0" "r2 = r" using fraction_no_point [OF f] by simp_all
    then show ?thesis
      unfolding parse_format_no_point [OF False]
      using z assms(3,4)
      by (intro exI [of _ None]) (simp add: set_offset_def set_if_consistent_def fits_i32_def)
  qed
qed

text \<open>
  C8. \<open>chrono\<close>'s parser refines RFC 3339: every text that is an RFC 3339 date-time and
  writes its \<open>T\<close> in upper case is read by \<open>DateTime::<FixedOffset>::from_str\<close> to
  exactly the instant RFC 3339 gives it (leap second, fraction and offset included),
  without a panic.
\<close>

theorem datetime_from_str_refines_rfc3339:
  assumes "rfc3339_parse s = Some t" and "CHR ''t'' \<notin> set s"
  shows "datetime_from_str s = Returns t"
proof -
  obtain y mo d h mi sec r nano r2 off s1 s2 s3 s4 s5 tc where
    ty: "take_digits 4 s = Some (y, CHR ''-'' # s1)" and tmo: "take_digits 2 s1 = Some (mo, CHR ''-'' # s2)"
    and td: "take_digits 2 s2 = Some (d, tc # s3)" and tc: "tc = CHR ''T'' \<or> tc = CHR ''t''"
    and th: "take_digits 2 s3 = Some (h, CHR '':'' # s4)" and tmi: "take_digits 2 s4 = Some (mi, CHR '':'' # s5)"
    and ts: "take_digits 2 s5 = Some (sec, r)" and f: "fraction r = Some (nano, r2)"
    and u: "utc_offset r2 = Some (off, [])" and v: "valid_civil y mo d h mi sec"
    and t: "t = civil_to_utc y mo d h mi sec nano off"
    using assms(1) by (rule rfc3339_parse_Some)
  have "tc \<in> set s"
    using take_digits_set [OF ty] take_digits_set [OF tmo] take_digits_set [OF td] by auto
  then have tcT: "tc = CHR ''T''" using tc assms(2) by auto
  have y: "y < 10000" using take_digits_less [OF ty] by simp
  have vr: "1 \<le> mo" "mo \<le> 12" "1 \<le> d" "d \<le> days_in_month (int y) mo" "h < 24" "mi < 60" "sec \<le> 60"
    using v by (simp_all add: valid_civil_def)
  have d31: "d \<le> 31" using vr(4) by (simp add: days_in_month_def split: if_splits)
  have sc: "scan_numeric 4 True s = Inr (CHR ''-'' # s1, int y)"
       "scan_numeric 2 False s1 = Inr (CHR ''-'' # s2, int mo)"
       "scan_numeric 2 False s2 = Inr (tc # s3, int d)"
       "scan_numeric 2 False s3 = Inr (CHR '':'' # s4, int h)"
       "scan_numeric 2 False s4 = Inr (CHR '':'' # s5, int mi)"
       "scan_numeric 2 False s5 = Inr (r, int sec)"
    by (simp_all add: scan_numeric_take_digits ty tmo td th tmi ts)
  have z: "- 86400 < off" "off < 86400" using utc_offset_zulu [OF u] by simp_all
  have nl: "nano < 1000000000" by (rule fraction_less [OF f])
  define p0 where "p0 = \<lparr>p_year = Some (int y), p_month = Some (int mo), p_day = Some (int d),
    p_hour = Some (int h), p_minute = Some (int mi), p_second = Some (int sec), p_nanosecond = None,
    p_offset = None\<rparr>"
  obtain nopt where
    pf: "parse_format [Fixed Nanosecond_fixed, Space, Fixed Timezone_offset_z, Space] p0 r =
           Inr (p0\<lparr>p_nanosecond := nopt, p_offset := Some off\<rparr>)"
    and no: "nopt = None \<and> nano = 0 \<or> nopt = Some (int nano)"
    using parse_format_fraction_offset [OF f u, of p0] by (auto simp: p0_def)
  have "parse_format datetime_items parsed_new s = Inr (p0\<lparr>p_nanosecond := nopt, p_offset := Some off\<rparr>)"
    using sc tcT pf y vr d31
    by (simp add: p0_def datetime_items_def parsed_new_def set_if_consistent_def fits_i32_def
                  fits_u32_def ws_len_ascii_sep)
  then show ?thesis
    using to_datetime_civil [OF v _ nl z(1) z(2) no] y t by (simp add: datetime_from_str_def p0_def)
qed


text \<open>
  What the parser does beyond and short of RFC 3339, on sample texts: it accepts one-digit fields,
  a lower-case \<open>z\<close>, Unicode whitespace around the fields and inside the offset; it
  rejects the lower-case \<open>t\<close> RFC 3339 allows (\<open>INVALID\<close>), a missing offset
  (\<open>TOO_SHORT\<close>), hour 24 and an offset of a day (\<open>OUT_OF_RANGE\<close>); and on the last day
  it can represent, an offset that carries the instant past it makes the library panic.
\<close>

lemma datetime_from_str_boundaries:
  "datetime_from_str ''2016-7-11T22:14:10z'' = Returns \<lparr>utc_timestamp = 1468275250, utc_subsec_nanos = 0\<rparr> \<and>
   datetime_from_str ([CHR 0xC2, CHR 0xA0] @ ''2016-07-11 T22:14:10 +00 : 00 '') =
     Returns \<lparr>utc_timestamp = 1468275250, utc_subsec_nanos = 0\<rparr> \<and>
   rfc3339_parse ''2016-07-11t22:14:10Z'' = Some \<lparr>utc_timestamp = 1468275250, utc_subsec_nanos = 0\<rparr> \<and>
   datetime_from_str ''2016-07-11t22:14:10Z'' = Parse_err Invalid \<and>
   datetime_from_str ''2016-07-11T22:14:10'' = Parse_err Too_short \<and>
   datetime_from_str ''2016-07-11T24:00:00Z'' = Parse_err Out_of_range \<and>
   datetime_from_str ''2016-07-11T22:14:10+24:00'' = Parse_err Out_of_range \<and>
   datetime_from_str ''+262143-12-31T23:59:59-01:00'' = Panics naive_overflow_message"
proof (intro conjI)
  show "rfc3339_parse ''2016-07-11t22:14:10Z'' = Some \<lparr>utc_timestamp = 1468275250, utc_subsec_nanos = 0\<rparr>"
    by (simp add: rfc3339_defs)
qed (simp_all add: chrono_defs days_from_civil_def [of 2016] trim_left_step colon_or_space_ws)

text \<open>
  C29. \<open>Parsed::to_datetime\<close> panics only with the message of
  \<open>NaiveDateTime + Duration\<close>, and only when the parsed date is \<open>chrono\<close>'s first
  day (-262144-01-01) or its last day (+262143-12-31). On every other date it accepts,
  with any time of day and any offset below a day, the instant lies inside
  \<open>chrono\<close>'s range. So an \<open>expires_at\<close> can make deserialization panic only by
  naming one of those two days.
\<close>

theorem to_datetime_panics_only_at_range_ends:
  assumes "to_datetime p = Panics msg"
  shows "msg = naive_overflow_message \<and>
         (p_year p, p_month p, p_day p) \<in> {(Some min_year, Some 1, Some 1), (Some max_year, Some 12, Some 31)}"
proof -
  obtain off y m d h mi s nano where
      o: "p_offset p = Some off" and nd: "to_naive_date p = Inr (y, m, d)"
      and nt: "to_naive_time p = Inr (h, mi, s, nano)" and ob: "- 86400 < off" "off < 86400"
      and out: "\<not> (naive_timestamp min_year 1 1 0 \<le> naive_timestamp y m d (int (h * 3600 + mi * 60 + s)) - off \<and>
                naive_timestamp y m d (int (h * 3600 + mi * 60 + s)) - off < naive_timestamp max_year 12 31 86400)"
      and msg: "msg = naive_overflow_message"
    using assms
    by (auto simp: to_datetime_def Let_def split: option.splits sum.splits prod.splits if_splits)
  have date: "p_year p = Some y \<and> p_month p = Some (int m) \<and> p_day p = Some (int d) \<and>
         1 \<le> m \<and> m \<le> 12 \<and> 1 \<le> d \<and> d \<le> days_in_month y m \<and> min_year \<le> y \<and> y \<le> max_year"
    by (rule to_naive_date_Inr [OF nd])
  have "h < 24 \<and> mi < 60 \<and> s < 60" by (rule to_naive_time_Inr [OF nt])
  then have t: "int (h * 3600 + mi * 60 + s) < 86400" by simp
  have "y = min_year \<and> m = 1 \<and> d = 1 \<or> y = max_year \<and> m = 12 \<and> d = 31"
    using naive_timestamp_inside [of m d y "int (h * 3600 + mi * 60 + s)" off] date t ob out by auto
  then show ?thesis using date msg by auto
qed

text \<open>Witnesses.\<close>

lemma to_datetime_panics_only_at_range_ends_witness:
  "to_datetime \<lparr>p_year = Some 262143, p_month = Some 12, p_day = Some 31, p_hour = Some 23,
      p_minute = Some 59, p_second = Some 59, p_nanosecond = None, p_offset = Some (-3600)\<rparr> =
     Panics naive_overflow_message \<and>
   (Some (262143::int), Some (12::int), Some (31::int)) \<in>
     {(Some min_year, Some 1, Some 1), (Some max_year, Some 12, Some 31)}"
proof -
  have p: "to_datetime \<lparr>p_year = Some 262143, p_month = Some 12, p_day = Some 31, p_hour = Some 23,
      p_minute = Some 59, p_second = Some 59, p_nanosecond = None, p_offset = Some (-3600)\<rparr> =
     Panics naive_overflow_message"
    by (simp add: chrono_defs)
  show ?thesis using p to_datetime_panics_only_at_range_ends [OF p] by simp
qed

lemma datetime_from_str_refines_rfc3339_witness:
  "rfc3339_parse ''2016-07-11T22:14:10.5+02:00'' =
     Some \<lparr>utc_timestamp = 1468268050, utc_subsec_nanos = 500000000\<rparr> \<and>
   CHR ''t'' \<notin> set ''2016-07-11T22:14:10.5+02:00'' \<and>
   datetime_from_str ''2016-07-11T22:14:10.5+02:00'' =
     Returns \<lparr>utc_timestamp = 1468268050, utc_subsec_nanos = 500000000\<rparr>"
proof -
  have p: "rfc3339_parse ''2016-07-11T22:14:10.5+02:00'' =
             Some \<lparr>utc_timestamp = 1468268050, utc_subsec_nanos = 500000000\<rparr>"
    by (simp add: rfc3339_defs)
  have t: "CHR ''t'' \<notin> set ''2016-07-11T22:14:10.5+02:00''" by simp
  show ?thesis using p t datetime_from_str_refines_rfc3339 [OF p t] by simp
qed

end
