(* ===== verification/Serde_Access.thy ===== *)
theory Serde_Access
  imports Json_Skip Chrono_Parse
begin

text \<open>
  What the code derived by \<open>#[derive(Deserialize)]\<close> for \<open>RawInstallationToken\<close>
  (\<open>src/lib.rs\<close> lines 83-88) asks of \<open>serde_json\<close>: the deserializers of its two field
  types (\<open>String\<close> and \<open>chrono\<close>'s \<open>DateTime<Utc>\<close>), the field identifier, and the
  \<open>MapAccess\<close> and \<open>SeqAccess\<close> steps with which the visitor walks an object or an
  array, with the closing checks \<open>end_map\<close> and \<open>end_seq\<close>. The lemmas show that each
  step consumes input and compute the steps on a member written with \<open>json_escape\<close>.
\<close>

subsection \<open>Field values\<close>

text \<open>\<open>String::deserialize\<close>: a JSON string, read by the reader \<open>rd\<close>.\<close>

text \<open>
  \<open>Deserializer::peek_invalid_type\<close>: the error for a value of another type than the
  one asked for. The value is scanned first, so a malformed literal or number reports
  its own error (\<open>parse_ident\<close>, and \<open>ignore_integer\<close> for the number syntax), and a
  byte that starts no value is \<open>ExpectedSomeValue\<close>; a well-formed value is
  \<open>invalid_type\<close>. The unexpected value and the expected type that the message names,
  and the \<open>f64\<close> range of a number, are not kept.
\<close>

definition peek_invalid_type :: "json_read \<Rightarrow> string \<Rightarrow> json_error" where
  "peek_invalid_type rd cs =
     (case cs of
        [] \<Rightarrow> Expected_some_value
      | c # r \<Rightarrow>
          (let scanned =
             (if c = CHR ''n'' then parse_ident ''ull'' r
              else if c = CHR ''t'' then parse_ident ''rue'' r
              else if c = CHR ''f'' then parse_ident ''alse'' r
              else if c = CHR ''-'' then ignore_integer r
              else if is_digit_byte c then ignore_integer (c # r)
              else if c = quote_char then (case read_str rd r of Inl e \<Rightarrow> Inl e | Inr (_, r') \<Rightarrow> Inr r')
              else if c = CHR ''['' \<or> c = CHR ''{'' then Inr r
              else Inl Expected_some_value)
           in case scanned of Inl e \<Rightarrow> e | Inr _ \<Rightarrow> Invalid_type))"

definition deserialize_string :: "json_read \<Rightarrow> string \<Rightarrow> json_error + (string \<times> string)" where
  "deserialize_string rd cs =
     (case skip_ws cs of
        [] \<Rightarrow> Inl Eof_while_parsing_value
      | c # r \<Rightarrow> if c = quote_char then read_str rd r else Inl (peek_invalid_type rd (c # r)))"

text \<open>
  \<open>DateTime<Utc>::deserialize\<close>: a JSON string parsed by \<open>chrono\<close>
  (\<open>datetime_from_str\<close>); a parse error becomes \<open>serde_json\<close>'s custom message, a
  panic of \<open>chrono\<close> stays a panic.
\<close>

definition deserialize_date_time :: "json_read \<Rightarrow> string \<Rightarrow> json_error + (date_time_utc \<times> string)" where
  "deserialize_date_time rd cs =
     (case deserialize_string rd cs of
        Inl e \<Rightarrow> Inl e
      | Inr (s, r) \<Rightarrow>
          (case datetime_from_str s of
             Returns t \<Rightarrow> Inr (t, r)
           | Parse_err k \<Rightarrow> Inl (Message (parse_error_message k))
           | Panics m \<Rightarrow> Inl (Panic m)))"

subsection \<open>Objects\<close>

text \<open>The derived \<open>__Field\<close> identifier: the two field names, anything else ignored.\<close>

datatype field = Field_token | Field_expires_at | Field_ignore

definition field_of_key :: "string \<Rightarrow> field" where
  "field_of_key k =
     (if k = ''token'' then Field_token else if k = ''expires_at'' then Field_expires_at
      else Field_ignore)"

text \<open>
  \<open>MapAccess::next_key_seed\<close>: \<open>None\<close> at the closing brace (not consumed); a comma
  before every key but the first; the key is a validated string.
\<close>

definition key_after :: "json_read \<Rightarrow> string \<Rightarrow> json_error + (field option \<times> string)" where
  "key_after rd cs =
     (case cs of
        [] \<Rightarrow> Inl Eof_while_parsing_value
      | c # r \<Rightarrow>
          if c = quote_char then
            (case read_str rd r of Inl e \<Rightarrow> Inl e | Inr (k, r') \<Rightarrow> Inr (Some (field_of_key k), r'))
          else if c = CHR ''}'' then Inl Trailing_comma
          else Inl Key_must_be_a_string)"

definition next_key :: "json_read \<Rightarrow> bool \<Rightarrow> string \<Rightarrow> json_error + (field option \<times> string)" where
  "next_key rd first cs =
     (case skip_ws cs of
        [] \<Rightarrow> Inl Eof_while_parsing_object
      | c # r \<Rightarrow>
          if c = CHR ''}'' then Inr (None, c # r)
          else if c = CHR '','' \<and> \<not> first then key_after rd (skip_ws r)
          else if first then key_after rd (c # r)
          else Inl Expected_object_comma_or_end)"

text \<open>\<open>Deserializer::parse_object_colon\<close>, run by \<open>next_value_seed\<close> before the value.\<close>

definition parse_object_colon :: "string \<Rightarrow> json_error + string" where
  "parse_object_colon cs =
     (case skip_ws cs of
        [] \<Rightarrow> Inl Eof_while_parsing_object
      | c # r \<Rightarrow> if c = CHR '':'' then Inr r else Inl Expected_colon)"

definition next_value :: "(string \<Rightarrow> json_error + ('a \<times> string)) \<Rightarrow> string \<Rightarrow> json_error + ('a \<times> string)" where
  "next_value de cs = (case parse_object_colon cs of Inl e \<Rightarrow> Inl e | Inr r \<Rightarrow> de r)"

text \<open>
  The end of the derived \<open>visit_map\<close>: a slot still empty when the object closes is a
  missing field, \<open>token\<close> checked first.
\<close>

definition finish_map :: "string option \<Rightarrow> date_time_utc option \<Rightarrow> json_error + raw_installation_token" where
  "finish_map f0 f1 =
     (case f0 of
        None \<Rightarrow> Inl (Missing_field ''token'')
      | Some t \<Rightarrow>
          (case f1 of
             None \<Rightarrow> Inl (Missing_field ''expires_at'')
           | Some d \<Rightarrow> Inr \<lparr>raw_token = t, raw_expires_at = d\<rparr>))"

subsection \<open>Arrays and closing brackets\<close>

text \<open>
  \<open>SeqAccess::next_element_seed\<close>: \<open>None\<close> at the closing bracket (not consumed), a
  comma before every element but the first, then the element's own deserializer.
\<close>

definition elem_after ::
  "(string \<Rightarrow> json_error + ('a \<times> string)) \<Rightarrow> string \<Rightarrow> json_error + ('a option \<times> string)" where
  "elem_after de cs =
     (case cs of
        [] \<Rightarrow> Inl Eof_while_parsing_value
      | c # r \<Rightarrow>
          if c = CHR '']'' then Inl Trailing_comma
          else (case de cs of Inl e \<Rightarrow> Inl e | Inr (v, r') \<Rightarrow> Inr (Some v, r')))"

definition next_element ::
  "bool \<Rightarrow> (string \<Rightarrow> json_error + ('a \<times> string)) \<Rightarrow> string \<Rightarrow> json_error + ('a option \<times> string)" where
  "next_element first de cs =
     (case skip_ws cs of
        [] \<Rightarrow> Inl Eof_while_parsing_list
      | c # r \<Rightarrow>
          if c = CHR '']'' then Inr (None, c # r)
          else if c = CHR '','' \<and> \<not> first then elem_after de (skip_ws r)
          else if first then elem_after de (c # r)
          else Inl Expected_list_comma_or_end)"

text \<open>\<open>Deserializer::end_map\<close> and \<open>end_seq\<close>: the closing bracket after the visitor.\<close>

definition end_map :: "string \<Rightarrow> json_error + string" where
  "end_map cs =
     (case skip_ws cs of
        [] \<Rightarrow> Inl Eof_while_parsing_object
      | c # r \<Rightarrow>
          if c = CHR ''}'' then Inr r
          else if c = CHR '','' then Inl Trailing_comma
          else Inl Trailing_characters)"

definition end_seq :: "string \<Rightarrow> json_error + string" where
  "end_seq cs =
     (case skip_ws cs of
        [] \<Rightarrow> Inl Eof_while_parsing_list
      | c # r \<Rightarrow>
          if c = CHR '']'' then Inr r
          else if c = CHR '','' then
            (case skip_ws r of
               d # _ \<Rightarrow> if d = CHR '']'' then Inl Trailing_comma else Inl Trailing_characters
             | [] \<Rightarrow> Inl Trailing_characters)
          else Inl Trailing_characters)"

subsection \<open>Properties\<close>

lemma key_after_length: "key_after rd cs = Inr (Some k, r) \<Longrightarrow> length r < length cs"
  by (auto simp: key_after_def split: list.splits if_splits sum.splits dest!: read_str_length)

lemma next_key_length: "next_key rd first cs = Inr (Some k, r) \<Longrightarrow> length r < length cs"
  using skip_ws_length [of "tl (skip_ws cs)"]
  by (fastforce simp: next_key_def split: list.splits if_splits
                dest!: key_after_length skip_ws_Cons_length)

lemma parse_object_colon_length: "parse_object_colon cs = Inr r \<Longrightarrow> length r < length cs"
  by (auto simp: parse_object_colon_def split: list.splits if_splits dest!: skip_ws_Cons_length)

lemma next_value_length:
  assumes "\<And>cs v r. de cs = Inr (v, r) \<Longrightarrow> length r \<le> length cs"
    and "next_value de cs = Inr (v, r)"
  shows "length r < length cs"
  using assms
  by (fastforce simp: next_value_def split: sum.splits dest!: parse_object_colon_length)

lemma deserialize_string_length: "deserialize_string rd cs = Inr (s, r) \<Longrightarrow> length r \<le> length cs"
  by (fastforce simp: deserialize_string_def split: list.splits if_splits
                dest!: read_str_length skip_ws_Cons_length)

lemma deserialize_date_time_string:
  assumes "deserialize_date_time rd cs = Inr (t, r)"
  shows "\<exists>s. deserialize_string rd cs = Inr (s, r) \<and> datetime_from_str s = Returns t"
proof (cases "deserialize_string rd cs")
  case (Inr p)
  with assms show ?thesis
    by (cases p) (auto simp: deserialize_date_time_def split: chrono_result.splits)
next
  case Inl
  with assms show ?thesis by (simp add: deserialize_date_time_def)
qed

lemma deserialize_date_time_length: "deserialize_date_time rd cs = Inr (t, r) \<Longrightarrow> length r \<le> length cs"
  by (blast dest: deserialize_date_time_string deserialize_string_length)

lemma ignore_any_length: "map_sum id (Pair ()) (ignore_value cs) = Inr (u, r) \<Longrightarrow> length r \<le> length cs"
  by (cases "ignore_value cs") (auto dest: ignore_value_length)

lemma next_value_lengths:
  "next_value (deserialize_string rd) cs = Inr (s, r) \<Longrightarrow> length r < length cs"
  "next_value (deserialize_date_time rd) cs = Inr (t, r) \<Longrightarrow> length r < length cs"
  "next_value (\<lambda>cs. map_sum id (Pair ()) (ignore_value cs)) cs = Inr (u, r) \<Longrightarrow> length r < length cs"
  by (erule next_value_length [rotated], erule deserialize_string_length deserialize_date_time_length
      ignore_any_length)+


text \<open>The steps of the visitor on members written with \<open>json_str\<close>.\<close>

lemma next_key_first:
  "utf8_valid k \<Longrightarrow> next_key Slice_read True (json_str k @ rest) = Inr (Some (field_of_key k), rest)"
  by (simp add: next_key_def key_after_def json_str_def is_ws_def parse_str_escape)

lemma next_key_comma:
  "utf8_valid k \<Longrightarrow>
   next_key Slice_read False (CHR '','' # json_str k @ rest) = Inr (Some (field_of_key k), rest)"
  by (simp add: next_key_def key_after_def json_str_def is_ws_def parse_str_escape)

lemma next_key_close: "next_key rd first (CHR ''}'' # rest) = Inr (None, CHR ''}'' # rest)"
  by (simp add: next_key_def is_ws_def)

lemma next_value_string:
  "utf8_valid t \<Longrightarrow> next_value (deserialize_string Slice_read) (CHR '':'' # json_str t @ rest) = Inr (t, rest)"
  by (simp add: next_value_def parse_object_colon_def deserialize_string_def json_str_def
                is_ws_def parse_str_escape)

lemma next_value_date_time:
  "datetime_from_str d = Returns dt \<Longrightarrow>
   next_value (deserialize_date_time Slice_read) (CHR '':'' # json_str d @ rest) = Inr (dt, rest)"
  by (simp add: next_value_def parse_object_colon_def deserialize_date_time_def
                deserialize_string_def json_str_def is_ws_def parse_str_escape
                datetime_from_str_utf8)


lemma deserialize_string_utf8: "deserialize_string Slice_read cs = Inr (s, r) \<Longrightarrow> utf8_valid s"
  by (auto simp: deserialize_string_def parse_str_def split: list.splits if_splits
           dest: parse_str_bytes_utf8)

lemma next_element_string_utf8:
  "next_element first (deserialize_string Slice_read) cs = Inr (Some t, r) \<Longrightarrow> utf8_valid t"
  by (auto simp: next_element_def elem_after_def split: list.splits if_splits sum.splits
           dest: deserialize_string_utf8)


subsection \<open>Suffixes, and the two readers\<close>

lemma key_after_suffix: "key_after rd cs = Inr (k, r) \<Longrightarrow> suffix r cs"
  by (auto simp: key_after_def split: list.splits if_splits sum.splits
           dest!: read_str_suffix intro: suffix_ConsI)

lemma next_key_suffix: "next_key rd first cs = Inr (k, r) \<Longrightarrow> suffix r cs"
proof -
  assume a: "next_key rd first cs = Inr (k, r)"
  then obtain c r0 where sw: "skip_ws cs = c # r0" by (cases "skip_ws cs") (auto simp: next_key_def)
  have s0: "suffix (c # r0) cs" using sw skip_ws_suffix [of cs] by simp
  have s1: "suffix (skip_ws r0) cs" using skip_ws_suffix [of r0] skip_ws_Cons_suffix [OF sw]
    by (metis suffix_order.order_trans)
  show ?thesis
    using a sw s0 s1 by (auto simp: next_key_def split: if_splits
                              dest!: key_after_suffix intro: suffix_order.order_trans)
qed

lemma parse_object_colon_suffix: "parse_object_colon cs = Inr r \<Longrightarrow> suffix r cs"
  by (auto simp: parse_object_colon_def split: list.splits if_splits dest!: skip_ws_Cons_suffix)

lemma deserialize_string_suffix: "deserialize_string rd cs = Inr (s, r) \<Longrightarrow> suffix r cs"
  by (auto simp: deserialize_string_def split: list.splits if_splits
           dest!: read_str_suffix skip_ws_Cons_suffix intro: suffix_order.order_trans)

lemma deserialize_date_time_suffix: "deserialize_date_time rd cs = Inr (t, r) \<Longrightarrow> suffix r cs"
  by (blast dest: deserialize_date_time_string deserialize_string_suffix)

lemma ignore_any_suffix: "map_sum id (Pair ()) (ignore_value cs) = Inr (u, r) \<Longrightarrow> suffix r cs"
  by (cases "ignore_value cs") (auto dest: ignore_value_suffix)

lemma next_value_suffix:
  assumes "\<And>cs v r. de cs = Inr (v, r) \<Longrightarrow> suffix r cs"
    and "next_value de cs = Inr (v, r)"
  shows "suffix r cs"
  using assms
  by (auto simp: next_value_def split: sum.splits dest!: parse_object_colon_suffix
           intro: suffix_order.order_trans)

lemma next_element_suffix:
  assumes "\<And>cs v r. de cs = Inr (v, r) \<Longrightarrow> suffix r cs"
    and "next_element first de cs = Inr (v, r)"
  shows "suffix r cs"
proof -
  obtain c r0 where sw: "skip_ws cs = c # r0"
    using assms(2) by (cases "skip_ws cs") (auto simp: next_element_def)
  have s0: "suffix (c # r0) cs" using sw skip_ws_suffix [of cs] by simp
  have s1: "suffix (skip_ws r0) cs" using skip_ws_suffix [of r0] skip_ws_Cons_suffix [OF sw]
    by (metis suffix_order.order_trans)
  show ?thesis
    using assms sw s0 s1
    by (auto simp: next_element_def elem_after_def split: if_splits list.splits sum.splits
             intro: suffix_order.order_trans)
qed

text \<open>The two readers agree on every suffix of a valid UTF-8 text.\<close>

lemma peek_invalid_type_agree:
  assumes "suffix cs cs0" and "utf8_valid cs0"
  shows "peek_invalid_type Str_read cs = peek_invalid_type Slice_read cs"
proof (cases cs)
  case (Cons c r)
  then show ?thesis
    using read_str_agree [of r cs0] assms
    by (auto simp del: read_str.simps simp: peek_invalid_type_def Let_def)
qed (simp add: peek_invalid_type_def)

lemma deserialize_string_agree:
  assumes "suffix cs cs0" and "utf8_valid cs0"
  shows "deserialize_string Str_read cs = deserialize_string Slice_read cs"
proof (cases "skip_ws cs")
  case (Cons c r)
  then have "suffix (c # r) cs0" using skip_ws_suffix [of cs] assms(1)
    by (metis suffix_order.order_trans)
  then show ?thesis
    using Cons read_str_agree [of r cs0] peek_invalid_type_agree [of "c # r" cs0] assms(2)
    by (auto simp del: read_str.simps simp: deserialize_string_def)
qed (simp add: deserialize_string_def)

lemma deserialize_date_time_agree:
  "suffix cs cs0 \<Longrightarrow> utf8_valid cs0 \<Longrightarrow>
   deserialize_date_time Str_read cs = deserialize_date_time Slice_read cs"
  by (simp add: deserialize_date_time_def deserialize_string_agree)

lemma key_after_agree:
  assumes "suffix cs cs0" and "utf8_valid cs0"
  shows "key_after Str_read cs = key_after Slice_read cs"
  using assms read_str_agree [of "tl cs" cs0]
  by (cases cs) (auto simp del: read_str.simps simp: key_after_def)

lemma next_key_agree:
  assumes "suffix cs cs0" and "utf8_valid cs0"
  shows "next_key Str_read first cs = next_key Slice_read first cs"
proof (cases "skip_ws cs")
  case (Cons c r0)
  have s0: "suffix (c # r0) cs0" using Cons skip_ws_suffix [of cs] assms(1)
    by (metis suffix_order.order_trans)
  have s1: "suffix (skip_ws r0) cs0" using skip_ws_suffix [of r0] s0
    by (metis suffix_ConsD suffix_order.order_trans)
  show ?thesis
    using Cons key_after_agree [OF s0 assms(2)] key_after_agree [OF s1 assms(2)]
    by (simp add: next_key_def)
qed (simp add: next_key_def)

lemma next_value_agree:
  assumes "suffix cs cs0" and "\<And>r. suffix r cs0 \<Longrightarrow> de1 r = de2 r"
  shows "next_value de1 cs = next_value de2 cs"
  using assms
  by (auto simp: next_value_def split: sum.splits dest!: parse_object_colon_suffix
           intro: suffix_order.order_trans)

lemma next_element_agree:
  assumes "suffix cs cs0" and "\<And>r. suffix r cs0 \<Longrightarrow> de1 r = de2 r"
  shows "next_element first de1 cs = next_element first de2 cs"
proof (cases "skip_ws cs")
  case (Cons c r0)
  have s0: "suffix (c # r0) cs0" using Cons skip_ws_suffix [of cs] assms(1)
    by (metis suffix_order.order_trans)
  have s1: "suffix (skip_ws r0) cs0" using skip_ws_suffix [of r0] s0
    by (metis suffix_ConsD suffix_order.order_trans)
  show ?thesis
    using Cons assms(2) [OF s0] assms(2) [OF s1]
    by (simp add: next_element_def elem_after_def split: list.splits)
qed (simp add: next_element_def)

end
