(* ===== verification/Raw_Token_Decode.thy ===== *)
theory Raw_Token_Decode
  imports Serde_Access
begin

text \<open>
  \<open>#[derive(Deserialize)]\<close> on \<open>RawInstallationToken\<close> (\<open>src/lib.rs\<close> lines 83-88) run by
  \<open>serde_json::from_slice\<close>, which \<open>Response::json()\<close> calls on the body (line 117). The
  derived visitor accepts the struct as a JSON object (\<open>visit_map\<close>: the fields in any
  order, other keys skipped with \<open>IgnoredAny\<close>, a repeated field an error, a missing field
  an error after the object is read) or as a JSON array of exactly two elements
  (\<open>visit_seq\<close>). \<open>serde_json\<close> checks the closing bracket and that only whitespace
  follows (\<open>Deserializer::end\<close>). The same deserializer runs over a \<open>StrRead\<close> in
  \<open>serde_json::from_str\<close>, which the unit test calls; C26 shows
  it decodes every UTF-8 text as \<open>from_slice\<close> does.
\<close>

text \<open>
  The derived \<open>visit_map\<close>: a loop over \<open>next_key\<close> with the two \<open>Option\<close> slots
  \<open>__field0\<close> (\<open>token\<close>) and \<open>__field1\<close> (\<open>expires_at\<close>). A key whose slot is
  already filled is a duplicate before its value is read; an unknown key's value is
  skipped. \<open>first\<close> is \<open>MapAccess\<close>'s flag: no comma before the first key.
\<close>

function visit_map ::
  "json_read \<Rightarrow> bool \<Rightarrow> string option \<Rightarrow> date_time_utc option \<Rightarrow> string \<Rightarrow> json_error + (raw_installation_token \<times> string)"
where
  "visit_map rd first f0 f1 cs =
     (case next_key rd first cs of
        Inl e \<Rightarrow> Inl e
      | Inr (None, r) \<Rightarrow> (case finish_map f0 f1 of Inl e \<Rightarrow> Inl e | Inr v \<Rightarrow> Inr (v, r))
      | Inr (Some Field_token, r) \<Rightarrow>
          if f0 \<noteq> None then Inl (Duplicate_field ''token'')
          else (case next_value (deserialize_string rd) r of
                  Inl e \<Rightarrow> Inl e
                | Inr (t, r') \<Rightarrow> visit_map rd False (Some t) f1 r')
      | Inr (Some Field_expires_at, r) \<Rightarrow>
          if f1 \<noteq> None then Inl (Duplicate_field ''expires_at'')
          else (case next_value (deserialize_date_time rd) r of
                  Inl e \<Rightarrow> Inl e
                | Inr (d, r') \<Rightarrow> visit_map rd False f0 (Some d) r')
      | Inr (Some Field_ignore, r) \<Rightarrow>
          (case next_value (\<lambda>cs. map_sum id (Pair ()) (ignore_value cs)) r of
             Inl e \<Rightarrow> Inl e
           | Inr (_, r') \<Rightarrow> visit_map rd False f0 f1 r'))"
  by pat_completeness auto
termination
  by (relation "measure (\<lambda>(_, _, _, _, cs). length cs)")
     (auto dest!: next_key_length next_value_lengths)

text \<open>The derived \<open>visit_seq\<close>: the token, then the expiry, each one required.\<close>

definition visit_seq :: "json_read \<Rightarrow> string \<Rightarrow> json_error + (raw_installation_token \<times> string)" where
  "visit_seq rd cs =
     (case next_element True (deserialize_string rd) cs of
        Inl e \<Rightarrow> Inl e
      | Inr (None, _) \<Rightarrow> Inl (Invalid_length 0)
      | Inr (Some t, r) \<Rightarrow>
          (case next_element False (deserialize_date_time rd) r of
             Inl e \<Rightarrow> Inl e
           | Inr (None, _) \<Rightarrow> Inl (Invalid_length 1)
           | Inr (Some d, r') \<Rightarrow> Inr (\<lparr>raw_token = t, raw_expires_at = d\<rparr>, r')))"

definition visit_then ::
  "json_error + (raw_installation_token \<times> string) \<Rightarrow> (string \<Rightarrow> json_error + string)
     \<Rightarrow> json_error + (raw_installation_token \<times> string)" where
  "visit_then ret close =
     (case ret of Inl e \<Rightarrow> Inl e | Inr (v, r) \<Rightarrow> (case close r of Inl e \<Rightarrow> Inl e | Inr r' \<Rightarrow> Inr (v, r')))"

text \<open>\<open>Deserializer::deserialize_struct\<close> for \<open>RawInstallationToken\<close>.\<close>

definition deserialize_struct :: "json_read \<Rightarrow> string \<Rightarrow> json_error + (raw_installation_token \<times> string)" where
  "deserialize_struct rd cs =
     (case skip_ws cs of
        [] \<Rightarrow> Inl Eof_while_parsing_value
      | c # r \<Rightarrow>
          if c = CHR ''['' then visit_then (visit_seq rd r) end_seq
          else if c = CHR ''{'' then visit_then (visit_map rd True None None r) end_map
          else Inl (peek_invalid_type rd (c # r)))"

text \<open>
  \<open>serde_json::from_trait\<close>: the struct, then nothing but whitespace
  (\<open>Deserializer::end\<close>). \<open>serde_json::from_slice\<close> runs it over a \<open>SliceRead\<close>,
  \<open>serde_json::from_str\<close> over a \<open>StrRead\<close>.
\<close>

definition from_trait :: "json_read \<Rightarrow> string \<Rightarrow> json_error + raw_installation_token" where
  "from_trait rd cs =
     (case deserialize_struct rd cs of
        Inl e \<Rightarrow> Inl e
      | Inr (v, r) \<Rightarrow> if skip_ws r = [] then Inr v else Inl Trailing_characters)"

definition from_slice :: "string \<Rightarrow> json_error + raw_installation_token" where
  "from_slice cs = from_trait Slice_read cs"


subsection \<open>The decoder the exchange uses\<close>

text \<open>
  The message of a \<open>serde_json::Error\<close> (its \<open>ErrorCode\<close>'s \<open>Display\<close>, without the
  position suffix), which \<open>reqwest\<close> keeps in its decode error.
\<close>

fun json_error_message :: "json_error \<Rightarrow> string" where
  "json_error_message Eof_while_parsing_list = ''EOF while parsing a list''"
| "json_error_message Eof_while_parsing_object = ''EOF while parsing an object''"
| "json_error_message Eof_while_parsing_string = ''EOF while parsing a string''"
| "json_error_message Eof_while_parsing_value = ''EOF while parsing a value''"
| "json_error_message Expected_colon = ''expected `:`''"
| "json_error_message Expected_list_comma_or_end = ''expected `,` or `]`''"
| "json_error_message Expected_object_comma_or_end = ''expected `,` or `}`''"
| "json_error_message Expected_some_ident = ''expected ident''"
| "json_error_message Expected_some_value = ''expected value''"
| "json_error_message Invalid_escape = ''invalid escape''"
| "json_error_message Invalid_number = ''invalid number''"
| "json_error_message Invalid_unicode_code_point = ''invalid unicode code point''"
| "json_error_message Key_must_be_a_string = ''key must be a string''"
| "json_error_message Lone_leading_surrogate_in_hex_escape = ''lone leading surrogate in hex escape''"
| "json_error_message Trailing_comma = ''trailing comma''"
| "json_error_message Trailing_characters = ''trailing characters''"
| "json_error_message Unexpected_end_of_hex_escape = ''unexpected end of hex escape''"
| "json_error_message Control_character_while_parsing_string =
     ''control character ('' @ [backslash_char] @ ''u0000-'' @ [backslash_char] @
     ''u001F) found while parsing a string''"
| "json_error_message Invalid_type = ''invalid type''"
| "json_error_message (Invalid_length n) =
     ''invalid length '' @ show_nat n @ '', expected struct RawInstallationToken with 2 elements''"
| "json_error_message (Missing_field f) = ''missing field `'' @ f @ ''`''"
| "json_error_message (Duplicate_field f) = ''duplicate field `'' @ f @ ''`''"
| "json_error_message (Message m) = m"
| "json_error_message (Panic m) = m"

text \<open>
  \<open>Response::json::<RawInstallationToken>()\<close> on a body: the world's \<open>json_decode\<close>
  when the exchange runs against the real \<open>serde_json\<close>.
\<close>

definition serde_json_decode :: "string \<Rightarrow> string + raw_installation_token" where
  "serde_json_decode bs =
     (case from_slice bs of Inl e \<Rightarrow> Inl (json_error_message e) | Inr v \<Rightarrow> Inr v)"

text \<open>The body of the crate's unit test \<open>test_raw_installation_token_parse\<close>.\<close>

definition test_resp :: string where
  "test_resp =
     ''{'' @ [CHR 0x0A] @
     ''            '' @ json_str ''token'' @ '': '' @ json_str ''v1.1f699f1069f60xxx'' @ '','' @ [CHR 0x0A] @
     ''            '' @ json_str ''expires_at'' @ '': '' @ json_str ''2016-07-11T22:14:10Z'' @ [CHR 0x0A] @
     ''            }''"

text \<open>\<open>serde_json::from_str::<RawInstallationToken>\<close> (line 226).\<close>

definition from_str :: "string \<Rightarrow> json_error + raw_installation_token" where
  "from_str s = from_trait Str_read s"

text \<open>
  The unit test \<open>test_raw_installation_token_parse\<close> (lines 220-234): \<open>from_str\<close>
  then \<open>unwrap\<close> (a panic on \<open>Err\<close>), then \<open>assert_eq!\<close> against a value whose
  expiry \<open>Utc.ymd(2016, 7, 11).and_hms(22, 14, 10)\<close> builds (each call may panic). The
  derived \<open>PartialEq\<close> compares the token and the instant.
\<close>

datatype test_outcome =
    Test_passed
  | Unwrap_failed json_error
  | Test_panicked string
  | Assert_eq_failed raw_installation_token raw_installation_token

definition test_raw_installation_token_parse :: test_outcome where
  "test_raw_installation_token_parse =
     (case from_str test_resp of
        Inl e \<Rightarrow> Unwrap_failed e
      | Inr token \<Rightarrow>
          (case utc_ymd 2016 7 11 of
             Inl m \<Rightarrow> Test_panicked m
           | Inr dt \<Rightarrow>
               (case date_and_hms dt 22 14 10 of
                  Inl m \<Rightarrow> Test_panicked m
                | Inr t \<Rightarrow>
                    (let expected = \<lparr>raw_token = ''v1.1f699f1069f60xxx'', raw_expires_at = t\<rparr> in
                     if token = expected then Test_passed else Assert_eq_failed token expected))))"

lemmas obj_steps = next_key_first next_key_comma next_key_close next_value_string next_value_date_time

lemmas decode_defs = json_str_def json_escape_def escape_char_def from_slice_def from_trait_def
  deserialize_struct_def visit_then_def end_map_def next_key_def key_after_def parse_str_def
  next_value_def parse_object_colon_def deserialize_string_def deserialize_date_time_def str_parse_str_def
  finish_map_def field_of_key_def is_ws_def ignore_value_def ignore_loop.simps ignore_scalar_def
  closes_def is_digit_byte_def hex_digit_def parse_escape_def parse_unicode_escape_def hex_val_def
  utf8_encode_def

subsection \<open>Properties of the decoder\<close>

text \<open>
  The crate's unit test \<open>test_raw_installation_token_parse\<close> passes: its body
  decodes to the token \<open>v1.1f699f1069f60xxx\<close> expiring at 2016-07-11 22:14:10 UTC, which
  is 1468275250 seconds after the epoch with no fraction, neither \<open>unwrap\<close> nor
  \<open>Utc.ymd(..).and_hms(..)\<close> panics, and \<open>assert_eq!\<close> holds.
\<close>

lemma unit_test_passes:
  "test_raw_installation_token_parse = Test_passed \<and>
   from_str test_resp =
     Inr \<lparr>raw_token = ''v1.1f699f1069f60xxx'',
          raw_expires_at = \<lparr>utc_timestamp = 1468275250, utc_subsec_nanos = 0\<rparr>\<rparr>"
  by (simp add: test_raw_installation_token_parse_def from_str_def test_resp_def decode_defs chrono_defs
                days_from_civil_def [of 2016] utc_ymd_def date_and_hms_def)

text \<open>
  C23. A response object written with any UTF-8 token and any expiry \<open>chrono\<close> parses decodes
  to exactly that token and instant, whichever order the two members come in.
\<close>

theorem from_slice_token_object:
  assumes "utf8_valid t" and "datetime_from_str d = Returns dt"
  shows "from_slice (''{'' @ json_str ''token'' @ '':'' @ json_str t @ '','' @
                     json_str ''expires_at'' @ '':'' @ json_str d @ ''}'') =
           Inr \<lparr>raw_token = t, raw_expires_at = dt\<rparr> \<and>
         from_slice (''{'' @ json_str ''expires_at'' @ '':'' @ json_str d @ '','' @
                     json_str ''token'' @ '':'' @ json_str t @ ''}'') =
           Inr \<lparr>raw_token = t, raw_expires_at = dt\<rparr>"
  using assms
  by (simp add: from_slice_def from_trait_def deserialize_struct_def visit_then_def end_map_def
                is_ws_def obj_steps field_of_key_def finish_map_def)

text \<open>
  C24. A member whose key is neither \<open>token\<close> nor \<open>expires_at\<close> is skipped whatever its
  value: the body decodes as if the member were not there.
\<close>

theorem from_slice_skips_unknown_member:
  assumes "field_of_key k = Field_ignore" and "utf8_valid k"
    and "ignore_value (v @ CHR '','' # rest) = Inr (CHR '','' # rest)"
    and "skip_ws rest = quote_char # r"
  shows "from_slice (''{'' @ json_str k @ '':'' @ v @ '','' @ rest) = from_slice (''{'' @ rest)"
proof -
  have "visit_map Slice_read True None None (json_str k @ '':'' @ v @ '','' @ rest) =
        visit_map Slice_read False None None ('','' @ rest)"
    using assms(1-3) by (simp add: obj_steps next_value_def parse_object_colon_def is_ws_def)
  moreover have "next_key Slice_read False ('','' @ rest) = next_key Slice_read True rest"
    using assms(4) by (simp add: next_key_def is_ws_def)
  then have "visit_map Slice_read False None None ('','' @ rest) = visit_map Slice_read True None None rest"
    by (subst (1 2) visit_map.simps) simp
  ultimately show ?thesis
    by (simp add: from_slice_def from_trait_def deserialize_struct_def is_ws_def)
qed

text \<open>
  C25. The slots of the derived visitor: a second \<open>token\<close> member is an error reported
  before its value is read (what follows the repeated key does not matter), and an
  object that ends without \<open>expires_at\<close> is a missing-field error.
\<close>

theorem from_slice_field_errors:
  assumes "utf8_valid t"
  shows "from_slice (''{'' @ json_str ''token'' @ '':'' @ json_str t @ '','' @ json_str ''token'' @ rest) =
           Inl (Duplicate_field ''token'') \<and>
         from_slice (''{'' @ json_str ''token'' @ '':'' @ json_str t @ ''}'') =
           Inl (Missing_field ''expires_at'')"
  using assms
  by (simp add: from_slice_def from_trait_def deserialize_struct_def visit_then_def is_ws_def obj_steps
                field_of_key_def finish_map_def)

text \<open>
  C27. The derived visitor also accepts the struct as a two-element array, token first:
  a body that is not a JSON object still decodes.
\<close>

theorem from_slice_array_form:
  assumes "utf8_valid t" and "datetime_from_str d = Returns dt"
  shows "from_slice (''['' @ json_str t @ '','' @ json_str d @ '']'') =
           Inr \<lparr>raw_token = t, raw_expires_at = dt\<rparr>"
  using assms
  by (simp add: from_slice_def from_trait_def deserialize_struct_def visit_then_def visit_seq_def end_seq_def
       next_element_def elem_after_def deserialize_string_def deserialize_date_time_def json_str_def
       is_ws_def parse_str_escape datetime_from_str_utf8)


lemma visit_map_utf8:
  "visit_map rd first f0 f1 cs = Inr (v, r) \<Longrightarrow> rd = Slice_read \<Longrightarrow>
   (\<forall>t. f0 = Some t \<longrightarrow> utf8_valid t) \<Longrightarrow> utf8_valid (raw_token v)"
proof (induction rd first f0 f1 cs rule: visit_map.induct)
  case (1 rd first f0 f1 cs)
  note vm = "1.prems"(1) [unfolded visit_map.simps [of rd first f0 f1 cs]]
  obtain k r1 where nk: "next_key rd first cs = Inr (k, r1)"
    using vm by (cases "next_key rd first cs") (auto simp del: visit_map.simps)
  show ?case
  proof (cases k)
    case None
    then show ?thesis using vm nk "1.prems"(3) by (auto simp: finish_map_def split: option.splits)
  next
    case (Some fld)
    show ?thesis
    proof (cases fld)
      case Field_token
      then obtain t r' where nv: "next_value (deserialize_string rd) r1 = Inr (t, r')"
        and f0: "f0 = None" and rec: "visit_map rd False (Some t) f1 r' = Inr (v, r)"
        using vm nk Some by (auto simp del: visit_map.simps split: if_splits sum.splits)
      have "utf8_valid t"
        using nv "1.prems"(2) by (auto simp: next_value_def split: sum.splits dest: deserialize_string_utf8)
      then show ?thesis using "1.IH"(1) [OF nk refl Some Field_token _ nv refl rec "1.prems"(2)] f0 by simp
    next
      case Field_expires_at
      then obtain d r' where nv: "next_value (deserialize_date_time rd) r1 = Inr (d, r')"
        and f1: "f1 = None" and rec: "visit_map rd False f0 (Some d) r' = Inr (v, r)"
        using vm nk Some by (auto simp del: visit_map.simps split: if_splits sum.splits)
      then show ?thesis using "1.IH"(2) [OF nk refl Some Field_expires_at _ nv refl rec] "1.prems"(2,3)
        by simp
    next
      case Field_ignore
      then obtain u r' where nv: "next_value (\<lambda>cs. map_sum id (Pair ()) (ignore_value cs)) r1 = Inr (u, r')"
        and rec: "visit_map rd False f0 f1 r' = Inr (v, r)"
        using vm nk Some by (auto simp del: visit_map.simps split: sum.splits)
      then show ?thesis using "1.IH"(3) [OF nk refl Some Field_ignore nv refl rec] "1.prems"(2,3)
        by simp
    qed
  qed
qed

lemma visit_seq_utf8: "visit_seq Slice_read cs = Inr (v, r) \<Longrightarrow> utf8_valid (raw_token v)"
  using next_element_string_utf8 [of True cs]
  by (auto simp: visit_seq_def split: sum.splits option.splits)

text \<open>
  C31. The token of every decoded \<open>RawInstallationToken\<close> is valid UTF-8, as a Rust
  \<open>String\<close> must be, whether it came from the object or the array form.
\<close>

theorem from_slice_token_utf8:
  assumes "from_slice cs = Inr v"
  shows "utf8_valid (raw_token v)"
proof -
  obtain r where d: "deserialize_struct Slice_read cs = Inr (v, r)"
    using assms by (auto simp: from_slice_def from_trait_def split: sum.splits if_splits)
  then obtain c cs' where "skip_ws cs = c # cs'"
    and "c = CHR ''['' \<and> visit_then (visit_seq Slice_read cs') end_seq = Inr (v, r) \<or>
         c = CHR ''{'' \<and> visit_then (visit_map Slice_read True None None cs') end_map = Inr (v, r)"
    by (auto simp: deserialize_struct_def simp del: visit_map.simps split: list.splits if_splits)
  then show ?thesis
    by (auto simp: visit_then_def simp del: visit_map.simps split: sum.splits
             dest: visit_seq_utf8 visit_map_utf8)
qed

subsection \<open>\<open>from_str\<close> and \<open>from_slice\<close>\<close>

text \<open>
  The deserializer over \<open>StrRead\<close> and over \<open>SliceRead\<close> call their readers at the
  same places, always right after a quote of the input, and every step returns a
  suffix of its input (the suffix lemmas of the scanners); on a valid UTF-8 input the
  two readers agree there (\<open>read_str_agree\<close>), and so do the steps built on them.
\<close>

lemma field_readers_agree:
  assumes "utf8_valid cs0"
  shows "\<And>r. suffix r cs0 \<Longrightarrow> deserialize_string Str_read r = deserialize_string Slice_read r"
    and "\<And>r. suffix r cs0 \<Longrightarrow> deserialize_date_time Str_read r = deserialize_date_time Slice_read r"
  using assms by (simp_all add: deserialize_string_agree deserialize_date_time_agree)

lemma visit_map_agree:
  assumes "suffix cs cs0" and "utf8_valid cs0"
  shows "visit_map Str_read first f0 f1 cs = visit_map Slice_read first f0 f1 cs"
  using assms(1)
proof (induction "length cs" arbitrary: cs first f0 f1 rule: less_induct)
  case less
  have nk: "next_key Str_read first cs = next_key Slice_read first cs"
    by (rule next_key_agree [OF less.prems assms(2)])
  show ?case
  proof (cases "next_key Slice_read first cs")
    case (Inr p)
    obtain k r1 where p: "p = (k, r1)" by (cases p)
    have "next_key Slice_read first cs = Inr (k, r1)" using Inr p by simp
    then have s1: "suffix r1 cs0"
      by (rule suffix_order.order_trans [OF next_key_suffix less.prems])
    note de = field_readers_agree [OF assms(2)]
    have nv1: "next_value (deserialize_string Str_read) r1 = next_value (deserialize_string Slice_read) r1"
      by (rule next_value_agree [OF s1]) (rule de(1))
    have nv2: "next_value (deserialize_date_time Str_read) r1 = next_value (deserialize_date_time Slice_read) r1"
      by (rule next_value_agree [OF s1]) (rule de(2))
    have rec: "visit_map Str_read False g0 g1 r' = visit_map Slice_read False g0 g1 r'"
      if "next_value de' r1 = Inr (v, r')" and "k = Some fld"
        and "\<And>c v r. de' c = Inr (v, r) \<Longrightarrow> suffix r c"
        and "\<And>c v r. de' c = Inr (v, r) \<Longrightarrow> length r \<le> length c"
      for de' v r' g0 g1 fld
    proof -
      have "length r' < length r1" using next_value_length [OF that(4) that(1)] .
      moreover have "next_key Slice_read first cs = Inr (Some fld, r1)" using Inr p that(2) by simp
      then have "length r1 < length cs" by (rule next_key_length)
      moreover have "suffix r' cs0"
        by (rule suffix_order.order_trans [OF next_value_suffix [OF that(3) that(1)] s1])
      ultimately show ?thesis using less.hyps by (simp del: visit_map.simps)
    qed
    have eq: "visit_map rd first f0 f1 cs =
      (case k of
         None \<Rightarrow> (case finish_map f0 f1 of Inl e \<Rightarrow> Inl e | Inr v \<Rightarrow> Inr (v, r1))
       | Some Field_token \<Rightarrow>
           if f0 \<noteq> None then Inl (Duplicate_field ''token'')
           else (case next_value (deserialize_string rd) r1 of
                   Inl e \<Rightarrow> Inl e | Inr (t, r') \<Rightarrow> visit_map rd False (Some t) f1 r')
       | Some Field_expires_at \<Rightarrow>
           if f1 \<noteq> None then Inl (Duplicate_field ''expires_at'')
           else (case next_value (deserialize_date_time rd) r1 of
                   Inl e \<Rightarrow> Inl e | Inr (d, r') \<Rightarrow> visit_map rd False f0 (Some d) r')
       | Some Field_ignore \<Rightarrow>
           (case next_value (\<lambda>cs. map_sum id (Pair ()) (ignore_value cs)) r1 of
              Inl e \<Rightarrow> Inl e | Inr (_, r') \<Rightarrow> visit_map rd False f0 f1 r'))"
      if "next_key rd first cs = Inr (k, r1)" for rd
      using that by (subst visit_map.simps) (simp del: visit_map.simps split: option.split)
    show ?thesis
    proof (cases k)
      case (Some fld)
      show ?thesis
      proof (cases fld)
        case Field_token
        then show ?thesis
          using eq [of Slice_read] eq [of Str_read] Inr p nk nv1 Some
                rec [where de' = "deserialize_string Slice_read", OF _ Some deserialize_string_suffix deserialize_string_length]
          by (simp del: visit_map.simps split: sum.split)
      next
        case Field_expires_at
        then show ?thesis
          using eq [of Slice_read] eq [of Str_read] Inr p nk nv2 Some
                rec [where de' = "deserialize_date_time Slice_read", OF _ Some deserialize_date_time_suffix deserialize_date_time_length]
          by (simp del: visit_map.simps split: sum.split)
      next
        case Field_ignore
        then show ?thesis
          using eq [of Slice_read] eq [of Str_read] Inr p nk Some
                rec [where de' = "\<lambda>cs. map_sum id (Pair ()) (ignore_value cs)", OF _ Some ignore_any_suffix ignore_any_length]
          by (simp del: visit_map.simps split: sum.split)
      qed
    qed (use eq [of Slice_read] eq [of Str_read] Inr p nk in \<open>simp del: visit_map.simps\<close>)
  qed (subst (1 2) visit_map.simps, simp add: nk del: visit_map.simps)
qed


lemma visit_seq_agree:
  assumes "suffix cs cs0" and "utf8_valid cs0"
  shows "visit_seq Str_read cs = visit_seq Slice_read cs"
proof -
  note de = field_readers_agree [OF assms(2)]
  have e1: "next_element True (deserialize_string Str_read) cs =
            next_element True (deserialize_string Slice_read) cs"
    by (rule next_element_agree [OF assms(1)]) (rule de(1))
  have e2: "next_element False (deserialize_date_time Str_read) r =
            next_element False (deserialize_date_time Slice_read) r"
    if "next_element True (deserialize_string Slice_read) cs = Inr (Some t, r)" for t r
  proof (rule next_element_agree)
    show "suffix r cs0"
      using next_element_suffix [OF deserialize_string_suffix that] assms(1)
      by (rule suffix_order.order_trans)
  qed (rule de(2))
  show ?thesis
    using e1 e2 by (auto simp: visit_seq_def split: sum.split option.split)
qed

lemma deserialize_struct_agree:
  assumes "utf8_valid cs"
  shows "deserialize_struct Str_read cs = deserialize_struct Slice_read cs"
proof (cases "skip_ws cs")
  case (Cons c r)
  then have s: "suffix r cs" by (rule skip_ws_Cons_suffix)
  have "suffix (c # r) cs" using Cons skip_ws_suffix [of cs] by simp
  then have p: "peek_invalid_type Str_read (c # r) = peek_invalid_type Slice_read (c # r)"
    using assms by (rule peek_invalid_type_agree)
  show ?thesis
    using Cons visit_seq_agree [OF s assms] visit_map_agree [OF s assms] p
    by (simp add: deserialize_struct_def del: visit_map.simps)
qed (simp add: deserialize_struct_def)

lemma from_trait_agree: "utf8_valid cs \<Longrightarrow> from_trait Str_read cs = from_trait Slice_read cs"
  by (simp add: from_trait_def deserialize_struct_agree)

text \<open>
  C26. \<open>serde_json::from_str\<close>, which the unit test calls, and \<open>serde_json::from_slice\<close>,
  which \<open>Response::json\<close> calls, decode every valid UTF-8 text (every Rust \<open>&str\<close>)
  to the same result, value or error: skipping the UTF-8 check of \<open>StrRead\<close> changes
  nothing on such input.
\<close>

theorem from_str_eq_from_slice: "utf8_valid s \<Longrightarrow> from_str s = from_slice s"
  by (simp add: from_str_def from_slice_def from_trait_agree)

subsection \<open>The properties at concrete bodies\<close>

lemma from_slice_token_object_witness:
  "utf8_valid ''v1.abc'' \<and>
   datetime_from_str ''2016-07-11T22:14:10Z'' = Returns \<lparr>utc_timestamp = 1468275250, utc_subsec_nanos = 0\<rparr> \<and>
   from_slice (''{'' @ json_str ''expires_at'' @ '':'' @ json_str ''2016-07-11T22:14:10Z'' @ '','' @
               json_str ''token'' @ '':'' @ json_str ''v1.abc'' @ ''}'') =
     Inr \<lparr>raw_token = ''v1.abc'', raw_expires_at = \<lparr>utc_timestamp = 1468275250, utc_subsec_nanos = 0\<rparr>\<rparr>"
  using from_slice_token_object [where t = "''v1.abc''" and d = "''2016-07-11T22:14:10Z''"
                                   and dt = "\<lparr>utc_timestamp = 1468275250, utc_subsec_nanos = 0\<rparr>"]
  by (simp add: chrono_defs days_from_civil_def [of 2016])

lemma from_slice_skips_unknown_member_witness:
  "field_of_key ''permissions'' = Field_ignore \<and> utf8_valid ''permissions'' \<and>
   ignore_value ((''{'' @ json_str ''contents'' @ '':'' @ json_str ''read'' @ ''}'') @
                 CHR '','' # json_str ''token'' @ ''}'') = Inr (CHR '','' # json_str ''token'' @ ''}'') \<and>
   skip_ws (json_str ''token'' @ ''}'') = quote_char # json_escape ''token'' @ quote_char # ''}'' \<and>
   from_slice (''{'' @ json_str ''permissions'' @ '':'' @
               (''{'' @ json_str ''contents'' @ '':'' @ json_str ''read'' @ ''}'') @ '','' @
               json_str ''token'' @ ''}'') =
     from_slice (''{'' @ json_str ''token'' @ ''}'')"
  using from_slice_skips_unknown_member
          [where k = "''permissions''" and v = "''{'' @ json_str ''contents'' @ '':'' @ json_str ''read'' @ ''}''"
             and rest = "json_str ''token'' @ ''}''" and r = "json_escape ''token'' @ quote_char # ''}''"]
  by (simp add: field_of_key_def ignore_value_def ignore_loop.simps ignore_scalar_def json_str_def
                json_escape_def escape_char_def closes_def is_ws_def is_digit_byte_def)

lemma from_slice_field_errors_witness:
  "utf8_valid ''a'' \<and>
   from_slice (''{'' @ json_str ''token'' @ '':'' @ json_str ''a'' @ '','' @ json_str ''token'' @ '':1}'') =
     Inl (Duplicate_field ''token'') \<and>
   from_slice (''{'' @ json_str ''token'' @ '':'' @ json_str ''a'' @ ''}'') = Inl (Missing_field ''expires_at'')"
  using from_slice_field_errors [where t = "''a''" and rest = "'':1}''"] by simp

lemma from_slice_array_form_witness:
  "utf8_valid ''v1.abc'' \<and>
   datetime_from_str ''2016-07-11T22:14:10Z'' = Returns \<lparr>utc_timestamp = 1468275250, utc_subsec_nanos = 0\<rparr> \<and>
   from_slice (''['' @ json_str ''v1.abc'' @ '','' @ json_str ''2016-07-11T22:14:10Z'' @ '']'') =
     Inr \<lparr>raw_token = ''v1.abc'', raw_expires_at = \<lparr>utc_timestamp = 1468275250, utc_subsec_nanos = 0\<rparr>\<rparr>"
  using from_slice_array_form [where t = "''v1.abc''" and d = "''2016-07-11T22:14:10Z''"
                                 and dt = "\<lparr>utc_timestamp = 1468275250, utc_subsec_nanos = 0\<rparr>"]
  by (simp add: chrono_defs days_from_civil_def [of 2016])


lemma from_slice_token_utf8_witness:
  "from_slice test_resp = Inr \<lparr>raw_token = ''v1.1f699f1069f60xxx'',
                                raw_expires_at = \<lparr>utc_timestamp = 1468275250, utc_subsec_nanos = 0\<rparr>\<rparr> \<and>
   utf8_valid ''v1.1f699f1069f60xxx''"
proof -
  have d: "from_slice test_resp = Inr \<lparr>raw_token = ''v1.1f699f1069f60xxx'',
                                raw_expires_at = \<lparr>utc_timestamp = 1468275250, utc_subsec_nanos = 0\<rparr>\<rparr>"
    by (simp add: test_resp_def decode_defs chrono_defs days_from_civil_def [of 2016])
  show ?thesis using d from_slice_token_utf8 [OF d] by simp
qed

lemma from_str_eq_from_slice_witness:
  "utf8_valid test_resp \<and> from_str test_resp = from_slice test_resp"
proof -
  have v: "utf8_valid test_resp" by (simp add: test_resp_def json_str_def json_escape_def escape_char_def)
  show ?thesis using from_str_eq_from_slice [OF v] v by simp
qed

end
