(* ===== verification/Jwt_Encode.thy ===== *)
theory Jwt_Encode
  imports Json_Scan Token_Exchange
begin

text \<open>
  What \<open>jsonwebtoken::encode\<close> (called at line 105 of \<open>src/lib.rs\<close>) does after its
  key-family check: it writes the header and the claims as JSON with \<open>serde_json\<close>
  (\<open>Header\<close>'s \<open>Serialize\<close>, and \<open>#[derive(Serialize)]\<close> on \<open>JwtClaims\<close>, lines 57--65),
  encodes both with unpadded URL-safe base64, signs the text \<open>header.claims\<close> and appends
  the base64 of the signature. The signing primitive stays a parameter \<open>crypto\<close>; base64
  (\<open>b64_encode\<close>) and the JSON writer are modelled byte for byte. \<open>b64_decode\<close> is the
  decoder a verifier runs on the segments; it is used to state the round trips.
\<close>

subsection \<open>Unpadded URL-safe base64\<close>

text \<open>
  The alphabet \<open>A-Z a-z 0-9 - _\<close>. A group of three bytes is the number
  \<open>(a * 256 + b) * 256 + c\<close>, written as four base-64 digits; a last group of two
  or one bytes is shifted left by two or four bits and written with three or two digits,
  with no \<open>=\<close> padding (\<open>base64::URL_SAFE_NO_PAD\<close>).
\<close>

definition b64_char :: "nat \<Rightarrow> char" where
  "b64_char k =
     (if k < 26 then char_of (65 + k) else if k < 52 then char_of (71 + k)
      else if k < 62 then char_of (k - 4) else if k = 62 then CHR ''-'' else CHR ''_'')"

definition b64_val :: "char \<Rightarrow> nat option" where
  "b64_val c =
     (let n = of_char c :: nat in
      if 65 \<le> n \<and> n \<le> 90 then Some (n - 65)
      else if 97 \<le> n \<and> n \<le> 122 then Some (n - 71)
      else if 48 \<le> n \<and> n \<le> 57 then Some (n + 4)
      else if c = CHR ''-'' then Some 62 else if c = CHR ''_'' then Some 63 else None)"

fun b64_digits :: "nat \<Rightarrow> nat \<Rightarrow> string" where
  "b64_digits n 0 = []"
| "b64_digits n (Suc k) = b64_digits (n div 64) k @ [b64_char (n mod 64)]"

fun b64_encode :: "string \<Rightarrow> string" where
  "b64_encode (a # b # c # rest) =
     b64_digits ((of_char a * 256 + of_char b) * 256 + of_char c) 4 @ b64_encode rest"
| "b64_encode [a, b] = b64_digits ((of_char a * 256 + of_char b) * 4) 3"
| "b64_encode [a] = b64_digits (of_char a * 16) 2"
| "b64_encode [] = []"

text \<open>
  Decoding: four digits give three bytes; a last group of three or two digits gives
  two or one bytes and must have its unused low bits clear; one digit alone is invalid.
\<close>

fun b64_num :: "string \<Rightarrow> nat \<Rightarrow> nat option" where
  "b64_num [] acc = Some acc"
| "b64_num (c # cs) acc = (case b64_val c of None \<Rightarrow> None | Some v \<Rightarrow> b64_num cs (acc * 64 + v))"

fun be_bytes :: "nat \<Rightarrow> nat \<Rightarrow> string" where
  "be_bytes n 0 = []"
| "be_bytes n (Suc k) = be_bytes (n div 256) k @ [char_of (n mod 256)]"

fun b64_decode :: "string \<Rightarrow> string option" where
  "b64_decode (w # x # y # z # rest) =
     (case b64_num [w, x, y, z] 0 of
        None \<Rightarrow> None
      | Some n \<Rightarrow> (case b64_decode rest of None \<Rightarrow> None | Some r \<Rightarrow> Some (be_bytes n 3 @ r)))"
| "b64_decode [w, x, y] =
     (case b64_num [w, x, y] 0 of
        None \<Rightarrow> None | Some n \<Rightarrow> if n mod 4 = 0 then Some (be_bytes (n div 4) 2) else None)"
| "b64_decode [w, x] =
     (case b64_num [w, x] 0 of
        None \<Rightarrow> None | Some n \<Rightarrow> if n mod 16 = 0 then Some (be_bytes (n div 16) 1) else None)"
| "b64_decode [w] = None"
| "b64_decode [] = Some []"

subsection \<open>The JSON writer\<close>

text \<open>
  \<open>serde_json\<close>'s compact writer: a string is quoted, with \<open>"\<close> and the backslash
  escaped, the five controls with a short escape written as \<open>\b \f \n \r \t\<close> and the
  other control bytes as \<open>\u00XX\<close> with lower-case hex digits; a \<open>u64\<close> is its decimal
  digits; a struct is its fields in declaration order, \<open>"name":value\<close>, separated by
  commas, with no space.
\<close>

definition serde_escape_char :: "char \<Rightarrow> string" where
  "serde_escape_char c =
     (if c = quote_char then [backslash_char, quote_char]
      else if c = backslash_char then [backslash_char, backslash_char]
      else if c = CHR 0x08 then [backslash_char, CHR ''b'']
      else if c = CHR 0x0C then [backslash_char, CHR ''f'']
      else if c = CHR 0x0A then [backslash_char, CHR ''n'']
      else if c = CHR 0x0D then [backslash_char, CHR ''r'']
      else if c = CHR 0x09 then [backslash_char, CHR ''t'']
      else if of_char c < (0x20::nat) then
        [backslash_char, CHR ''u'', CHR ''0'', CHR ''0'', hex_digit (of_char c div 16), hex_digit (of_char c mod 16)]
      else [c])"

definition serialize_str :: "string \<Rightarrow> string" where
  "serialize_str s = quote_char # concat (map serde_escape_char s) @ [quote_char]"

definition serialize_u64 :: "u64 \<Rightarrow> string" where
  "serialize_u64 n = show_nat (unat n)"

text \<open>\<open>Algorithm\<close> serialises as the name of its variant.\<close>

fun alg_name :: "algorithm \<Rightarrow> string" where
  "alg_name HS256 = ''HS256''" | "alg_name HS384 = ''HS384''" | "alg_name HS512 = ''HS512''"
| "alg_name ES256 = ''ES256''" | "alg_name ES384 = ''ES384''"
| "alg_name RS256 = ''RS256''" | "alg_name RS384 = ''RS384''" | "alg_name RS512 = ''RS512''"
| "alg_name PS256 = ''PS256''" | "alg_name PS384 = ''PS384''" | "alg_name PS512 = ''PS512''"

text \<open>
  \<open>Header\<close>: \<open>typ\<close> (skipped when \<open>None\<close>), then \<open>alg\<close>; its other fields are \<open>None\<close>
  in \<open>Header::default()\<close>, which the crate does not change, and are skipped.
\<close>

definition serialize_header :: "jwt_header \<Rightarrow> string" where
  "serialize_header h =
     ''{'' @ (case hdr_typ h of None \<Rightarrow> [] | Some t \<Rightarrow> serialize_str ''typ'' @ '':'' @ serialize_str t @ '','') @
     serialize_str ''alg'' @ '':'' @ serialize_str (alg_name (alg h)) @ ''}''"

text \<open>\<open>#[derive(Serialize)]\<close> on \<open>JwtClaims\<close> (lines 57--65): \<open>iat\<close>, \<open>exp\<close>, \<open>iss\<close>.\<close>

definition serialize_claims :: "jwt_claims \<Rightarrow> string" where
  "serialize_claims c =
     ''{'' @ serialize_str ''iat'' @ '':'' @ serialize_u64 (iat c) @ '','' @
     serialize_str ''exp'' @ '':'' @ serialize_u64 (exp c) @ '','' @
     serialize_str ''iss'' @ '':'' @ serialize_u64 (iss c) @ ''}''"

subsection \<open>The compact JWS\<close>

text \<open>
  The signing input \<open>b64(header).b64(claims)\<close>, and the token: the input, a dot, and the
  base64 of what \<open>crypto\<close> returns for the header's algorithm, the key and the input
  (\<open>crypto::sign\<close>, which may fail, for instance on a key that does not parse).
  \<open>jsonwebtoken_encode (jws_sign crypto)\<close> is the whole of \<open>jsonwebtoken::encode\<close>.
\<close>

definition signing_input :: "jwt_header \<Rightarrow> jwt_claims \<Rightarrow> string" where
  "signing_input h c = b64_encode (serialize_header h) @ ''.'' @ b64_encode (serialize_claims c)"

definition jws_sign ::
  "(algorithm \<Rightarrow> encoding_key \<Rightarrow> string \<Rightarrow> jwt_error + string)
     \<Rightarrow> jwt_header \<Rightarrow> jwt_claims \<Rightarrow> encoding_key \<Rightarrow> jwt_error + string" where
  "jws_sign crypto h c key =
     (case crypto (alg h) key (signing_input h c) of
        Inl e \<Rightarrow> Inl e
      | Inr sig \<Rightarrow> Inr (signing_input h c @ ''.'' @ b64_encode sig))"

text \<open>Splitting a compact token at its dots, as a verifier does.\<close>

fun split_dots :: "string \<Rightarrow> string list" where
  "split_dots [] = [[]]"
| "split_dots (c # cs) =
     (if c = CHR ''.'' then [] # split_dots cs
      else (case split_dots cs of [] \<Rightarrow> [[c]] | s # ss \<Rightarrow> (c # s) # ss))"

subsection \<open>Properties of base64\<close>

lemma b64_val_char: "k < 64 \<Longrightarrow> b64_val (b64_char k) = Some k"
proof -
  assume k: "k < 64"
  consider "k < 26" | "26 \<le> k" "k < 52" | "52 \<le> k" "k < 62" | "k = 62" | "k = 63"
    using k by linarith
  then show ?thesis
  proof cases
    case 1
    then show ?thesis by (simp add: b64_char_def b64_val_def of_char_of)
  next
    case 2
    then show ?thesis by (simp add: b64_char_def b64_val_def of_char_of)
  next
    case 3
    then show ?thesis by (simp add: b64_char_def b64_val_def of_char_of Let_def) linarith
  qed (simp_all add: b64_char_def b64_val_def)
qed

lemma b64_num_append:
  "b64_num (xs @ ys) acc = (case b64_num xs acc of None \<Rightarrow> None | Some m \<Rightarrow> b64_num ys m)"
  by (induction xs acc rule: b64_num.induct) (auto split: option.splits)

lemma b64_num_digits: "b64_num (b64_digits n k) acc = Some (acc * 64 ^ k + n mod 64 ^ k)"
proof (induction k arbitrary: n acc)
  case 0
  then show ?case by simp
next
  case (Suc k)
  have "n mod 64 ^ Suc k = 64 * (n div 64 mod 64 ^ k) + n mod 64"
    by (simp add: mod_mult2_eq mult.commute)
  then show ?case
    by (simp add: Suc b64_num_append b64_val_char algebra_simps)
qed

lemma b64_digits_length [simp]: "length (b64_digits n k) = k"
  by (induction n k rule: b64_digits.induct) simp_all

lemma byte_div [simp]: "(c::nat) < 256 \<Longrightarrow> (x * 256 + c) div 256 = x"
  by (metis add.commute div_less div_mult_self1 zero_neq_numeral add_0)

lemma byte_mod [simp]: "(c::nat) < 256 \<Longrightarrow> (x * 256 + c) mod 256 = c"
  by (metis add.commute mod_less mod_mult_self1)

lemma byte_horner_less: "(x::nat) < m \<Longrightarrow> c < 256 \<Longrightarrow> x * 256 + c < m * 256"
proof -
  assume "x < m" "c < 256"
  then have "x * 256 + c < Suc x * 256" by simp
  also have "Suc x * 256 \<le> m * 256" using \<open>x < m\<close> by (simp only: mult_le_mono1 Suc_leI)
  finally show ?thesis .
qed

lemma b64_digits_4:
  "b64_digits n 4 =
     [b64_char (n div 64 div 64 div 64 mod 64), b64_char (n div 64 div 64 mod 64),
      b64_char (n div 64 mod 64), b64_char (n mod 64)]"
proof -
  have "(4::nat) = Suc (Suc (Suc (Suc 0)))" by simp
  then show ?thesis by (simp only: b64_digits.simps) simp
qed

lemma be_bytes_3:
  "be_bytes ((of_char a * 256 + of_char b) * 256 + of_char c) 3 = [a, b, c]"
proof -
  have "(3::nat) = Suc (Suc (Suc 0))" by simp
  then show ?thesis
    by (simp only: be_bytes.simps byte_div byte_mod mod_less nat_of_char_less_256 char_of_char append.simps)
qed

lemma b64_digits_3:
  "b64_digits n 3 = [b64_char (n div 64 div 64 mod 64), b64_char (n div 64 mod 64), b64_char (n mod 64)]"
proof -
  have "(3::nat) = Suc (Suc (Suc 0))" by simp
  then show ?thesis by (simp only: b64_digits.simps) simp
qed

lemma b64_digits_2: "b64_digits n 2 = [b64_char (n div 64 mod 64), b64_char (n mod 64)]"
proof -
  have "(2::nat) = Suc (Suc 0)" by simp
  then show ?thesis by (simp only: b64_digits.simps) simp
qed

lemma be_bytes_2: "be_bytes (of_char a * 256 + of_char b) 2 = [a, b]"
proof -
  have "(2::nat) = Suc (Suc 0)" by simp
  then show ?thesis
    by (simp only: be_bytes.simps byte_div byte_mod mod_less nat_of_char_less_256 char_of_char append.simps)
qed

lemma be_bytes_1: "be_bytes (of_char a) 1 = [a]"
  by (simp add: nat_of_char_less_256)

lemma b64_num_exact: "n < 64 ^ k \<Longrightarrow> b64_num (b64_digits n k) 0 = Some n"
  by (simp add: b64_num_digits)

lemma pair_less: "(of_char a * 256 + of_char b :: nat) < 65536"
  using byte_horner_less [of "of_char a" 256 "of_char b"] by (simp add: nat_of_char_less_256)

lemma triple_less: "((of_char a * 256 + of_char b) * 256 + of_char c :: nat) < 64 ^ 4"
  using byte_horner_less [OF pair_less [of a b] nat_of_char_less_256 [of c]] by simp

lemma b64_val_dot: "b64_val (CHR ''.'') = None"
  by (simp add: b64_val_def)

lemma b64_char_not_dot: "k < 64 \<Longrightarrow> CHR ''.'' \<noteq> b64_char k"
  using b64_val_char [of k] b64_val_dot by force

lemma b64_digits_no_dot: "CHR ''.'' \<notin> set (b64_digits n k)"
  by (induction n k rule: b64_digits.induct) (simp_all add: b64_char_not_dot)

lemma b64_encode_no_dot: "CHR ''.'' \<notin> set (b64_encode s)"
  by (induction s rule: b64_encode.induct) (simp_all add: b64_digits_no_dot)

lemma split_dots_no_dot: "CHR ''.'' \<notin> set xs \<Longrightarrow> split_dots xs = [xs]"
  by (induction xs) auto

lemma split_dots_append:
  "CHR ''.'' \<notin> set xs \<Longrightarrow> split_dots (xs @ CHR ''.'' # ys) = xs # split_dots ys"
  by (induction xs) (auto split: list.splits)

subsection \<open>Properties of the token\<close>

text \<open>
  Unpadded URL-safe base64 loses nothing: decoding the encoding of any byte string
  gives the string back, whatever its length modulo three.
\<close>

lemma b64_decode_encode: "b64_decode (b64_encode s) = Some s"
proof (induction s rule: b64_encode.induct)
  case (1 a b c rest)
  have q: "b64_num (b64_digits ((of_char a * 256 + of_char b) * 256 + of_char c) 4) 0 =
           Some ((of_char a * 256 + of_char b) * 256 + of_char c)"
    by (rule b64_num_exact [OF triple_less])
  show ?case
    using q "1" by (simp only: b64_encode.simps b64_digits_4 append.simps b64_decode.simps
                               option.case be_bytes_3)
next
  case (2 a b)
  have m: "((of_char a * 256 + of_char b) * 4 :: nat) < 64 ^ 3"
    using pair_less [of a b] by simp
  have q: "b64_num (b64_digits ((of_char a * 256 + of_char b) * 4) 3) 0 =
           Some ((of_char a * 256 + of_char b) * 4)"
    by (rule b64_num_exact [OF m])
  show ?case
    using q by (simp only: b64_encode.simps b64_digits_3 b64_decode.simps option.case
                           mod_mult_self2_is_0 if_True nonzero_mult_div_cancel_right
                           zero_neq_numeral not_False_eq_True simp_thms(6) be_bytes_2)
next
  case (3 a)
  have m: "(of_char a * 16 :: nat) < 64 ^ 2"
    using nat_of_char_less_256 [of a] by simp
  have q: "b64_num (b64_digits (of_char a * 16) 2) 0 = Some (of_char a * 16)"
    by (rule b64_num_exact [OF m])
  show ?case
    using q by (simp only: b64_encode.simps b64_digits_2 b64_decode.simps option.case
                           mod_mult_self2_is_0 if_True nonzero_mult_div_cancel_right
                           zero_neq_numeral not_False_eq_True simp_thms(6) be_bytes_1)
qed simp


text \<open>
  Every token \<open>jsonwebtoken::encode\<close> returns has a key of the header algorithm's
  family, and splits at its dots into exactly three segments, which decode to the JSON of
  the header, the JSON of the claims and the signature computed on the first two.
\<close>

lemma jwt_segments:
  assumes "jsonwebtoken_encode (jws_sign crypto) h c key = Inr jwt"
  shows "key_family key = alg_family (alg h) \<and>
         (\<exists>sig. crypto (alg h) key (signing_input h c) = Inr sig \<and>
               map b64_decode (split_dots jwt) =
                 [Some (serialize_header h), Some (serialize_claims c), Some sig])"
  using assms
  by (auto simp: jsonwebtoken_encode_def jws_sign_def signing_input_def split_dots_append
                 split_dots_no_dot b64_encode_no_dot b64_decode_encode split: if_splits sum.splits)

text \<open>
  For the header the crate builds (\<open>Header::default()\<close> with \<open>alg = RS256\<close>) the
  first segment is \<open>eyJ0eXAiOiJKV1QiLCJhbGciOiJSUzI1NiJ9\<close>, the base64 of
  \<open>{"typ":"JWT","alg":"RS256"}\<close>, and claims are written as \<open>{"iat":..,"exp":..,"iss":..}\<close>
  in declaration order with decimal numbers.
\<close>

lemma rs256_header_segment:
  "b64_encode (serialize_header rs256_header) = ''eyJ0eXAiOiJKV1QiLCJhbGciOiJSUzI1NiJ9'' \<and>
   serialize_claims \<lparr>iat = 1468275250, exp = 1468275310, iss = 1234\<rparr> =
     ''{\"iat\":1468275250,\"exp\":1468275310,\"iss\":1234}''"
proof
  have "serialize_header rs256_header = ''{\"typ\":\"JWT\",\"alg\":\"RS256\"}''"
    by (simp add: serialize_header_def jwt_header_default_def serialize_str_def serde_escape_char_def)
  then show "b64_encode (serialize_header rs256_header) = ''eyJ0eXAiOiJKV1QiLCJhbGciOiJSUzI1NiJ9''"
    by (simp add: b64_digits_4 b64_digits_3 b64_digits_2 b64_char_def char_of_eq_iff)
next
  show "serialize_claims \<lparr>iat = 1468275250, exp = 1468275310, iss = 1234\<rparr> =
     ''{\"iat\":1468275250,\"exp\":1468275310,\"iss\":1234}''"
    by (simp add: serialize_claims_def serialize_str_def serde_escape_char_def serialize_u64_def
                  show_nat.simps digit_char_def char_of_eq_iff)
qed

end
