(* ===== verification/Doc_Example.thy ===== *)
theory Doc_Example
  imports Installation_Token
begin

text \<open>
  The crate's documented use (the \<open>no_run\<close> example of the crate documentation,
  \<open>src/lib.rs\<close> lines 8--26): construct an \<open>InstallationToken\<close>, take its header, and
  send a request with the token's own client. \<open>expect\<close> turns an error into a panic,
  modelled as \<open>Inl\<close> of the panic message; the result of the final \<open>send()\<close> is dropped.
\<close>










end
